theory Spec2Isabelle
  imports Main
begin

section \<open>Keys, file metadata and the level cursor\<close>

text \<open>
  A user key is a byte string (Go \<^verbatim>\<open>[]byte\<close>). A nil slice and an empty slice differ in the
  source (\<^verbatim>\<open>l.lower != nil\<close>), so every nullable slice is a \<open>key option\<close>.
\<close>

type_synonym key = string

type_synonym error = string

text \<open>
  Modelled from the spec: \<^verbatim>\<open>base.InternalKey\<close> lives in package \<^verbatim>\<open>internal/base\<close>. The spec
  describes an internal key as a user key that ``carries an exclusive sentinel bit''; the
  trailer (sequence number and kind) is reduced to that bit.
\<close>

record InternalKey =
  UserKey :: key
  ExclusiveSentinel :: bool

definition IsExclusiveSentinel :: "InternalKey \<Rightarrow> bool" where
  "IsExclusiveSentinel k = ExclusiveSentinel k"

text \<open>
  Modelled from the spec: \<^verbatim>\<open>base.MakeRangeDeleteSentinelKey\<close>, ``a user key plus a
  range-delete exclusive sentinel marker''.
\<close>

definition MakeRangeDeleteSentinelKey :: "key \<Rightarrow> InternalKey" where
  "MakeRangeDeleteSentinelKey userKey = \<lparr>UserKey = userKey, ExclusiveSentinel = True\<rparr>"

record InternalKV =
  K :: InternalKey
  V :: string

text \<open>
  The fields of \<^verbatim>\<open>manifest.FileMetadata\<close> that \<^verbatim>\<open>level_iter.go\<close> reads.
  \<^verbatim>\<open>StatsValid\<close> is the result of the method \<^verbatim>\<open>file.StatsValid()\<close>.
\<close>

record fileMetadata =
  FileNum :: nat
  SmallestPointKey :: InternalKey
  LargestPointKey :: InternalKey
  SmallestRangeKey :: InternalKey
  LargestRangeKey :: InternalKey
  HasPointKeys :: bool
  HasRangeKeys :: bool
  StatsValid :: bool
  NumRangeKeySets :: nat

text \<open>
  Modelled from the spec: \<^verbatim>\<open>manifest.LevelIterator\<close>, the ``cursor over the ordered list of
  file-metadata entries of one level'' with \<open>first, last, next, prev, seek_ge, seek_lt\<close>,
  ``keyed by user-key comparisons against file bounds''. The cursor is the list of files and
  an index; index \<open>-1\<close> is the position before the first file and \<open>length\<close> the position
  after the last one. A file's bounds are the extremes of its ``overall extent'', the union of
  its point-key and range-key spans.
\<close>

record LevelIterator =
  cfiles :: "fileMetadata list"
  cpos :: int

definition Current :: "LevelIterator \<Rightarrow> fileMetadata option" where
  "Current c =
     (if 0 \<le> cpos c \<and> cpos c < int (length (cfiles c))
      then Some (cfiles c ! nat (cpos c)) else None)"

definition fileLargest :: "(key \<Rightarrow> key \<Rightarrow> int) \<Rightarrow> fileMetadata \<Rightarrow> key" where
  "fileLargest cmpf f =
     (if HasPointKeys f \<and> HasRangeKeys f then
        (if cmpf (UserKey (LargestPointKey f)) (UserKey (LargestRangeKey f)) < 0
         then UserKey (LargestRangeKey f) else UserKey (LargestPointKey f))
      else if HasRangeKeys f then UserKey (LargestRangeKey f)
      else UserKey (LargestPointKey f))"

definition fileSmallest :: "(key \<Rightarrow> key \<Rightarrow> int) \<Rightarrow> fileMetadata \<Rightarrow> key" where
  "fileSmallest cmpf f =
     (if HasPointKeys f \<and> HasRangeKeys f then
        (if cmpf (UserKey (SmallestRangeKey f)) (UserKey (SmallestPointKey f)) < 0
         then UserKey (SmallestRangeKey f) else UserKey (SmallestPointKey f))
      else if HasRangeKeys f then UserKey (SmallestRangeKey f)
      else UserKey (SmallestPointKey f))"

definition cursor_First :: "LevelIterator \<Rightarrow> fileMetadata option \<times> LevelIterator" where
  "cursor_First c = (let c' = c\<lparr>cpos := 0\<rparr> in (Current c', c'))"

definition cursor_Last :: "LevelIterator \<Rightarrow> fileMetadata option \<times> LevelIterator" where
  "cursor_Last c = (let c' = c\<lparr>cpos := int (length (cfiles c)) - 1\<rparr> in (Current c', c'))"

definition cursor_Next :: "LevelIterator \<Rightarrow> fileMetadata option \<times> LevelIterator" where
  "cursor_Next c =
     (let c' = (if cpos c < int (length (cfiles c)) then c\<lparr>cpos := cpos c + 1\<rparr> else c)
      in (Current c', c'))"

definition cursor_Prev :: "LevelIterator \<Rightarrow> fileMetadata option \<times> LevelIterator" where
  "cursor_Prev c =
     (let c' = (if 0 \<le> cpos c then c\<lparr>cpos := cpos c - 1\<rparr> else c)
      in (Current c', c'))"

text \<open>The number of leading files whose largest bound is below the key.\<close>

fun seekGE_index :: "(key \<Rightarrow> key \<Rightarrow> int) \<Rightarrow> key \<Rightarrow> fileMetadata list \<Rightarrow> nat" where
  "seekGE_index cmpf k [] = 0"
| "seekGE_index cmpf k (f # fs) =
     (if cmpf (fileLargest cmpf f) k \<ge> 0 then 0 else Suc (seekGE_index cmpf k fs))"

text \<open>The number of files up to and including the last one whose smallest bound is below the key.\<close>

fun seekLT_count :: "(key \<Rightarrow> key \<Rightarrow> int) \<Rightarrow> key \<Rightarrow> fileMetadata list \<Rightarrow> nat" where
  "seekLT_count cmpf k [] = 0"
| "seekLT_count cmpf k (f # fs) =
     (let n = seekLT_count cmpf k fs in
      if n > 0 then Suc n
      else if cmpf (fileSmallest cmpf f) k < 0 then 1 else 0)"

definition cursor_SeekGE ::
  "(key \<Rightarrow> key \<Rightarrow> int) \<Rightarrow> key \<Rightarrow> LevelIterator \<Rightarrow> fileMetadata option \<times> LevelIterator" where
  "cursor_SeekGE cmpf k c =
     (let c' = c\<lparr>cpos := int (seekGE_index cmpf k (cfiles c))\<rparr> in (Current c', c'))"

definition cursor_SeekLT ::
  "(key \<Rightarrow> key \<Rightarrow> int) \<Rightarrow> key \<Rightarrow> LevelIterator \<Rightarrow> fileMetadata option \<times> LevelIterator" where
  "cursor_SeekLT cmpf k c =
     (let c' = c\<lparr>cpos := int (seekLT_count cmpf k (cfiles c)) - 1\<rparr> in (Current c', c'))"

section \<open>Flags, results and the iterator state\<close>

text \<open>
  Modelled from the spec: \<^verbatim>\<open>base.SeekGEFlags\<close> and \<^verbatim>\<open>base.SeekLTFlags\<close> are bit sets of
  package \<^verbatim>\<open>internal/base\<close>; the spec names the two hint bits \<open>try_seek_using_next\<close> and
  \<open>relative_seek\<close>.
\<close>

record SeekGEFlags =
  TrySeekUsingNext :: bool
  RelativeSeek :: bool

definition SeekGEFlagsNone :: SeekGEFlags where
  "SeekGEFlagsNone = \<lparr>TrySeekUsingNext = False, RelativeSeek = False\<rparr>"

definition EnableTrySeekUsingNext :: "SeekGEFlags \<Rightarrow> SeekGEFlags" where
  "EnableTrySeekUsingNext f = f\<lparr>TrySeekUsingNext := True\<rparr>"

definition DisableTrySeekUsingNext :: "SeekGEFlags \<Rightarrow> SeekGEFlags" where
  "DisableTrySeekUsingNext f = f\<lparr>TrySeekUsingNext := False\<rparr>"

definition EnableRelativeSeek :: "SeekGEFlags \<Rightarrow> SeekGEFlags" where
  "EnableRelativeSeek f = f\<lparr>RelativeSeek := True\<rparr>"

record SeekLTFlags =
  RelativeSeekLT :: bool

definition SeekLTFlagsNone :: SeekLTFlags where
  "SeekLTFlagsNone = \<lparr>RelativeSeekLT = False\<rparr>"

text \<open>
  The direction argument \<^verbatim>\<open>dir int\<close> of \<^verbatim>\<open>loadFile\<close> and
  \<^verbatim>\<open>maybeTriggerCombinedIteration\<close>: every call site passes the literal \<open>+1\<close> or \<open>-1\<close>.
\<close>

datatype dir = Fwd | Bwd

fun dirInt :: "dir \<Rightarrow> int" where
  "dirInt Fwd = 1"
| "dirInt Bwd = -1"

text \<open>
  A returned \<^verbatim>\<open>*base.InternalKV\<close> is either a pointer handed out by the inner point iterator
  or the address of the field \<^verbatim>\<open>l.syntheticBoundary\<close>; \<^verbatim>\<open>verify\<close> compares these pointers.
\<close>

datatype kvptr = IterKV InternalKV | SynthKV

record combinedIterState =
  initialized :: bool
  triggered :: bool
  ckey :: key

datatype loadFileReturnIndicator = noFileLoaded | fileAlreadyLoaded | newFileLoaded

text \<open>
  The ways the source stops abnormally: the assertions under \<^verbatim>\<open>invariants.Enabled\<close>, the
  \<^verbatim>\<open>Fatalf\<close> calls of \<^verbatim>\<open>verify\<close>, and a call through a nil pointer.
\<close>

datatype panic =
    AssertSyntheticBoundary
  | AssertSeekGELower
  | AssertSeekLTUpper
  | AssertFirstLower
  | AssertLastUpper
  | FatalLowerBound
  | FatalUpperBound
  | NilDeref

text \<open>
  The calls the iterator makes, in order. The trace is written by the model and read by
  no function of it: it only lets theorems speak about which calls an operation made.
\<close>

datatype event =
    EvFindFileGE key SeekGEFlags
  | EvNewIters fileMetadata
  | EvClosePoint
  | EvCloseRangeDel
  | EvFilesFirst
  | EvFilesLast
  | EvFilesNext
  | EvFilesPrev
  | EvFilesSeekGE key
  | EvFilesSeekLT key

text \<open>
  The environment of the iterator: the build constant \<^verbatim>\<open>invariants.Enabled\<close> and the methods
  of the two black boxes, the point iterator of a table (\<^verbatim>\<open>internalIterator\<close>, state \<open>'it\<close>)
  and its range-deletion iterator (\<^verbatim>\<open>keyspan.FragmentIterator\<close>, a handle \<open>'rd\<close> that the
  merging iterator reads and the level iterator only closes).
\<close>

record ('it, 'rd) env =
  invariants_Enabled :: bool
  it_SeekGE :: "key \<Rightarrow> SeekGEFlags \<Rightarrow> 'it \<Rightarrow> InternalKV option \<times> 'it"
  it_SeekPrefixGE :: "key \<Rightarrow> key \<Rightarrow> SeekGEFlags \<Rightarrow> 'it \<Rightarrow> InternalKV option \<times> 'it"
  it_SeekLT :: "key \<Rightarrow> SeekLTFlags \<Rightarrow> 'it \<Rightarrow> InternalKV option \<times> 'it"
  it_First :: "'it \<Rightarrow> InternalKV option \<times> 'it"
  it_Last :: "'it \<Rightarrow> InternalKV option \<times> 'it"
  it_Next :: "'it \<Rightarrow> InternalKV option \<times> 'it"
  it_NextPrefix :: "key \<Rightarrow> 'it \<Rightarrow> InternalKV option \<times> 'it"
  it_Prev :: "'it \<Rightarrow> InternalKV option \<times> 'it"
  it_Error :: "'it \<Rightarrow> error option"
  it_Close :: "'it \<Rightarrow> error option"
  it_SetBounds :: "key option \<Rightarrow> key option \<Rightarrow> 'it \<Rightarrow> 'it"
  rd_Close :: "'rd \<Rightarrow> error option"

text \<open>
  The struct \<^verbatim>\<open>levelIter\<close>. \<open>rangeDelIterPtr\<close> is a pointer to a cell owned by the merging
  iterator: \<open>None\<close> is the nil pointer and \<open>Some c\<close> a pointer to a cell that holds \<open>c\<close>.
  \<open>newIters\<close> takes the file, the table bounds and whether range deletions are requested.
  \<open>iterFile\<close> is compared by pointer in the source and by value here; the files of a level
  have distinct file numbers.
\<close>

record ('it, 'rd) levelIter =
  cmp :: "key \<Rightarrow> key \<Rightarrow> int"
  split :: "key \<Rightarrow> nat"
  lower :: "key option"
  upper :: "key option"
  tableOpts_LowerBound :: "key option"
  tableOpts_UpperBound :: "key option"
  smallestBoundary :: "kvptr option"
  largestBoundary :: "kvptr option"
  syntheticBoundary :: InternalKV
  combinedIterState :: "combinedIterState option"
  iter :: "'it option"
  iterFile :: "fileMetadata option"
  newIters :: "fileMetadata \<Rightarrow> key option \<Rightarrow> key option \<Rightarrow> bool \<Rightarrow> error + ('it \<times> 'rd option)"
  rangeDelIterPtr :: "'rd option option"
  rangeDelIterCopy :: "'rd option"
  files :: LevelIterator
  err :: "error option"
  exhaustedDir :: int
  disableInvariants :: bool
  trace :: "event list"

type_synonym ('it, 'rd) result = "panic + (kvptr option \<times> ('it, 'rd) levelIter)"

section \<open>Calls on the level cursor\<close>

definition files_First :: "('it, 'rd) levelIter \<Rightarrow> fileMetadata option \<times> ('it, 'rd) levelIter" where
  "files_First s =
     (case cursor_First (files s) of
        (m, c) \<Rightarrow> (m, s\<lparr>files := c, trace := trace s @ [EvFilesFirst]\<rparr>))"

definition files_Last :: "('it, 'rd) levelIter \<Rightarrow> fileMetadata option \<times> ('it, 'rd) levelIter" where
  "files_Last s =
     (case cursor_Last (files s) of
        (m, c) \<Rightarrow> (m, s\<lparr>files := c, trace := trace s @ [EvFilesLast]\<rparr>))"

definition files_Next :: "('it, 'rd) levelIter \<Rightarrow> fileMetadata option \<times> ('it, 'rd) levelIter" where
  "files_Next s =
     (case cursor_Next (files s) of
        (m, c) \<Rightarrow> (m, s\<lparr>files := c, trace := trace s @ [EvFilesNext]\<rparr>))"

definition files_Prev :: "('it, 'rd) levelIter \<Rightarrow> fileMetadata option \<times> ('it, 'rd) levelIter" where
  "files_Prev s =
     (case cursor_Prev (files s) of
        (m, c) \<Rightarrow> (m, s\<lparr>files := c, trace := trace s @ [EvFilesPrev]\<rparr>))"

definition files_SeekGE ::
  "key \<Rightarrow> ('it, 'rd) levelIter \<Rightarrow> fileMetadata option \<times> ('it, 'rd) levelIter" where
  "files_SeekGE k s =
     (case cursor_SeekGE (cmp s) k (files s) of
        (m, c) \<Rightarrow> (m, s\<lparr>files := c, trace := trace s @ [EvFilesSeekGE k]\<rparr>))"

definition files_SeekLT ::
  "key \<Rightarrow> ('it, 'rd) levelIter \<Rightarrow> fileMetadata option \<times> ('it, 'rd) levelIter" where
  "files_SeekLT k s =
     (case cursor_SeekLT (cmp s) k (files s) of
        (m, c) \<Rightarrow> (m, s\<lparr>files := c, trace := trace s @ [EvFilesSeekLT k]\<rparr>))"

text \<open>What is left of the level in front of the cursor, and behind it.\<close>

definition files_ahead :: "('it, 'rd) levelIter \<Rightarrow> nat" where
  "files_ahead s = nat (int (length (cfiles (files s))) - cpos (files s))"

definition files_behind :: "('it, 'rd) levelIter \<Rightarrow> nat" where
  "files_behind s = nat (cpos (files s) + 1)"

section \<open>The operations of the level iterator\<close>

definition emitSyntheticBoundaries :: "('it, 'rd) levelIter \<Rightarrow> bool" where
  "emitSyntheticBoundaries s =
     (case rangeDelIterPtr s of None \<Rightarrow> False | Some c \<Rightarrow> c \<noteq> None)"

definition makeSyntheticBoundary ::
  "('it, 'rd) env \<Rightarrow> key \<Rightarrow> ('it, 'rd) levelIter \<Rightarrow> panic + (kvptr \<times> ('it, 'rd) levelIter)" where
  "makeSyntheticBoundary E userKey s =
     (if invariants_Enabled E \<and> \<not> emitSyntheticBoundaries s then Inl AssertSyntheticBoundary
      else Inr (SynthKV,
                s\<lparr>syntheticBoundary := \<lparr>K = MakeRangeDeleteSentinelKey userKey, V = []\<rparr>\<rparr>))"

definition maybeTriggerCombinedIteration ::
  "fileMetadata option \<Rightarrow> dir \<Rightarrow> ('it, 'rd) levelIter \<Rightarrow> ('it, 'rd) levelIter" where
  "maybeTriggerCombinedIteration file d s =
     (case file of
        None \<Rightarrow> s
      | Some f \<Rightarrow>
         (case combinedIterState s of
            None \<Rightarrow> s
          | Some cs \<Rightarrow>
             if HasRangeKeys f \<and> \<not> initialized cs \<and>
                (case upper s of None \<Rightarrow> True
                 | Some u \<Rightarrow> cmp s (UserKey (SmallestRangeKey f)) u < 0) \<and>
                (case lower s of None \<Rightarrow> True
                 | Some lo \<Rightarrow> cmp s (UserKey (LargestRangeKey f)) lo > 0) \<and>
                (\<not> StatsValid f \<or> NumRangeKeySets f > 0)
             then
               (case d of
                  Fwd \<Rightarrow>
                    if \<not> triggered cs then
                      s\<lparr>combinedIterState :=
                          Some (cs\<lparr>triggered := True, ckey := UserKey (SmallestRangeKey f)\<rparr>)\<rparr>
                    else if cmp s (ckey cs) (UserKey (SmallestRangeKey f)) > 0 then
                      s\<lparr>combinedIterState := Some (cs\<lparr>ckey := UserKey (SmallestRangeKey f)\<rparr>)\<rparr>
                    else s
                | Bwd \<Rightarrow>
                    if \<not> triggered cs then
                      s\<lparr>combinedIterState :=
                          Some (cs\<lparr>triggered := True, ckey := UserKey (LargestRangeKey f)\<rparr>)\<rparr>
                    else if cmp s (ckey cs) (UserKey (LargestRangeKey f)) < 0 then
                      s\<lparr>combinedIterState := Some (cs\<lparr>ckey := UserKey (LargestRangeKey f)\<rparr>)\<rparr>
                    else s)
             else s))"

lemma files_maybeTrigger [simp]: "files (maybeTriggerCombinedIteration file d s) = files s"
  by (simp add: maybeTriggerCombinedIteration_def split: option.splits dir.splits)

lemma cmp_maybeTrigger [simp]: "cmp (maybeTriggerCombinedIteration file d s) = cmp s"
  by (simp add: maybeTriggerCombinedIteration_def split: option.splits dir.splits)

lemma files_ahead_maybeTrigger [simp]:
  "files_ahead (maybeTriggerCombinedIteration file d s) = files_ahead s"
  by (simp add: files_ahead_def)

lemma files_behind_maybeTrigger [simp]:
  "files_behind (maybeTriggerCombinedIteration file d s) = files_behind s"
  by (simp add: files_behind_def)

lemma files_Next_ahead:
  "files_Next s = (Some m, s') \<Longrightarrow> files_ahead s' < files_ahead s"
  by (auto simp: files_Next_def cursor_Next_def Current_def files_ahead_def Let_def
      split: if_splits)

lemma files_Prev_behind:
  "files_Prev s = (Some m, s') \<Longrightarrow> files_behind s' < files_behind s"
  by (auto simp: files_Prev_def cursor_Prev_def Current_def files_behind_def Let_def
      split: if_splits)

text \<open>
  How one pass through a loop body ends: with \<^verbatim>\<open>continue\<close> on new loop variables, or
  by leaving the loop (\<^verbatim>\<open>break\<close> or \<^verbatim>\<open>return\<close>).
\<close>

datatype ('c, 'r) pass = Continue 'c | Leave 'r

text \<open>
  The body of the loop of \<^verbatim>\<open>findFileGE\<close> for a file \<open>m\<close>, on the loop variables \<open>m\<close>,
  \<open>nextInsteadOfSeek\<close> and \<open>nextsUntilSeek\<close>, and the loop; the loop returns the final values
  of its variables with the state.
\<close>

definition findFileGE_body ::
  "key \<Rightarrow> fileMetadata \<Rightarrow> bool \<Rightarrow> int \<Rightarrow> ('it, 'rd) levelIter \<Rightarrow>
   (fileMetadata option \<times> bool \<times> int \<times> ('it, 'rd) levelIter, ('it, 'rd) levelIter) pass" where
  "findFileGE_body k m nextInsteadOfSeek nextsUntilSeek s =
     (let s1 = (if HasRangeKeys m then maybeTriggerCombinedIteration (Some m) Fwd s else s) in
      if HasRangeKeys m \<and> \<not> HasPointKeys m then
        Continue (fst (files_Next s1), nextInsteadOfSeek, nextsUntilSeek, snd (files_Next s1))
      else if (HasRangeKeys m \<or> nextInsteadOfSeek) \<and>
              cmp s1 (UserKey (LargestPointKey m)) k < 0 then
        (if nextInsteadOfSeek \<and> nextsUntilSeek = 0 then
           Continue (fst (files_SeekGE k s1), False, nextsUntilSeek, snd (files_SeekGE k s1))
         else
           Continue (fst (files_Next s1), nextInsteadOfSeek,
                     (if nextsUntilSeek > 0 then nextsUntilSeek - 1 else nextsUntilSeek),
                     snd (files_Next s1)))
      else if IsExclusiveSentinel (LargestPointKey m) \<and>
              cmp s1 (UserKey (LargestPointKey m)) k = 0 then
        Continue (fst (files_Next s1), nextInsteadOfSeek, nextsUntilSeek, snd (files_Next s1))
      else Leave s1)"

lemma findFileGE_body_decreases:
  assumes "findFileGE_body k m nis nus s = Continue (Some m', nis', nus', s')"
  shows "(nis \<and> \<not> nis') \<or> (nis' = nis \<and> files_ahead s' < files_ahead s)"
proof -
  define s1 where "s1 = (if HasRangeKeys m then maybeTriggerCombinedIteration (Some m) Fwd s else s)"
  have a: "files_ahead s1 = files_ahead s"
    by (simp add: s1_def)
  have "files_ahead (snd (files_Next s1)) < files_ahead s1" if "fst (files_Next s1) = Some m'"
    using that files_Next_ahead [of s1 m' "snd (files_Next s1)"] by (simp add: prod_eq_iff)
  with assms a show ?thesis
    by (auto simp: findFileGE_body_def Let_def s1_def [symmetric] split: if_splits)
qed

function findFileGE_loop ::
  "key \<Rightarrow> fileMetadata option \<Rightarrow> bool \<Rightarrow> int \<Rightarrow> ('it, 'rd) levelIter \<Rightarrow>
   fileMetadata option \<times> bool \<times> int \<times> ('it, 'rd) levelIter" where
  "findFileGE_loop k None nextInsteadOfSeek nextsUntilSeek s =
     (None, nextInsteadOfSeek, nextsUntilSeek, s)"
| "findFileGE_loop k (Some m) nextInsteadOfSeek nextsUntilSeek s =
     (case findFileGE_body k m nextInsteadOfSeek nextsUntilSeek s of
        Continue (m', nextInsteadOfSeek', nextsUntilSeek', s') \<Rightarrow>
          findFileGE_loop k m' nextInsteadOfSeek' nextsUntilSeek' s'
      | Leave s1 \<Rightarrow> (Some m, nextInsteadOfSeek, nextsUntilSeek, s1))"
  by pat_completeness auto
termination
proof (relation "measures [\<lambda>(k, m, nis, nus, s). if nis then 1 else 0,
                           \<lambda>(k, m, nis, nus, s). case m of None \<Rightarrow> 0 | Some _ \<Rightarrow> Suc (files_ahead s)]",
       goal_cases)
  case 1
  show ?case by simp
next
  case (2 k m nis nus s c m' x nis' y nus' s')
  then have b: "findFileGE_body k m nis nus s = Continue (m', nis', nus', s')"
    by simp
  show ?case
  proof (cases m')
    case None
    with b show ?thesis
      by (auto simp: findFileGE_body_def Let_def split: if_splits)
  next
    case (Some f)
    with findFileGE_body_decreases [of k m nis nus s f nis' nus' s'] b show ?thesis
      by auto
  qed
qed

text \<open>
  A property of the loop from a property of its body: an invariant \<open>I\<close> that every
  \<^verbatim>\<open>continue\<close> keeps gives \<open>Q\<close> for what the loop returns when every way out gives it.
\<close>

lemma findFileGE_loop_rule:
  assumes "I k m nis nus s"
    and "\<And>k m nis nus s m' nis' nus' s'.
           I k (Some m) nis nus s \<Longrightarrow>
           findFileGE_body k m nis nus s = Continue (m', nis', nus', s') \<Longrightarrow> I k m' nis' nus' s'"
    and "\<And>k m nis nus s s1.
           I k (Some m) nis nus s \<Longrightarrow> findFileGE_body k m nis nus s = Leave s1 \<Longrightarrow>
           Q k (Some m, nis, nus, s1)"
    and "\<And>k nis nus s. I k None nis nus s \<Longrightarrow> Q k (None, nis, nus, s)"
  shows "Q k (findFileGE_loop k m nis nus s)"
  using assms(1)
proof (induction k m nis nus s rule: findFileGE_loop.induct)
  case (1 k nis nus s)
  then show ?case
    using assms(4) by simp
next
  case (2 k m nis nus s)
  show ?case
  proof (cases "findFileGE_body k m nis nus s")
    case (Continue c)
    obtain m' nis' nus' s' where c: "c = (m', nis', nus', s')"
      by (cases c) auto
    from Continue c have b: "findFileGE_body k m nis nus s = Continue (m', nis', nus', s')"
      by simp
    have "I k m' nis' nus' s'"
      by (rule assms(2) [OF "2.prems" b])
    then have "Q k (findFileGE_loop k m' nis' nus' s')"
      by (rule "2.IH" [OF Continue c [symmetric] refl refl])
    then show ?thesis
      by (simp add: b)
  next
    case (Leave s1)
    then show ?thesis
      using assms(3) [OF "2.prems"] by simp
  qed
qed

definition findFileGE ::
  "key \<Rightarrow> SeekGEFlags \<Rightarrow> ('it, 'rd) levelIter \<Rightarrow> fileMetadata option \<times> ('it, 'rd) levelIter" where
  "findFileGE k flags s0 =
     (let s = s0\<lparr>trace := trace s0 @ [EvFindFileGE k flags]\<rparr>;
          (nextInsteadOfSeek1, nextsUntilSeek1) =
             (if TrySeekUsingNext flags then (True, 4) else (False, 0));
          (nextInsteadOfSeek, nextsUntilSeek) =
             (if RelativeSeek flags \<and>
                 (case combinedIterState s of None \<Rightarrow> False | Some cs \<Rightarrow> \<not> initialized cs)
              then (True, -1) else (nextInsteadOfSeek1, nextsUntilSeek1))
      in case (if nextInsteadOfSeek then (iterFile s, s) else files_SeekGE k s) of
           (m, s1) \<Rightarrow>
             (case findFileGE_loop k m nextInsteadOfSeek nextsUntilSeek s1 of
                (m', _, _, s2) \<Rightarrow> (m', s2)))"

definition findFileLT_body ::
  "key \<Rightarrow> fileMetadata \<Rightarrow> bool \<Rightarrow> ('it, 'rd) levelIter \<Rightarrow>
   (fileMetadata option \<times> ('it, 'rd) levelIter, ('it, 'rd) levelIter) pass" where
  "findFileLT_body k m prevInsteadOfSeek s =
     (let s1 = (if HasRangeKeys m then maybeTriggerCombinedIteration (Some m) Bwd s else s) in
      if HasRangeKeys m \<and> \<not> HasPointKeys m then Continue (files_Prev s1)
      else if (HasRangeKeys m \<or> prevInsteadOfSeek) \<and>
              cmp s1 (UserKey (SmallestPointKey m)) k \<ge> 0 then Continue (files_Prev s1)
      else Leave s1)"

lemma findFileLT_body_decreases:
  assumes "findFileLT_body k m pis s = Continue (Some m', s')"
  shows "files_behind s' < files_behind s"
proof -
  define s1 where "s1 = (if HasRangeKeys m then maybeTriggerCombinedIteration (Some m) Bwd s else s)"
  have a: "files_behind s1 = files_behind s"
    by (simp add: s1_def)
  from assms have "files_Prev s1 = (Some m', s')"
    by (auto simp: findFileLT_body_def Let_def s1_def [symmetric] split: if_splits)
  from files_Prev_behind [OF this] a show ?thesis
    by simp
qed

function findFileLT_loop ::
  "key \<Rightarrow> fileMetadata option \<Rightarrow> bool \<Rightarrow> ('it, 'rd) levelIter \<Rightarrow>
   fileMetadata option \<times> ('it, 'rd) levelIter" where
  "findFileLT_loop k None prevInsteadOfSeek s = (None, s)"
| "findFileLT_loop k (Some m) prevInsteadOfSeek s =
     (case findFileLT_body k m prevInsteadOfSeek s of
        Continue (m', s') \<Rightarrow> findFileLT_loop k m' prevInsteadOfSeek s'
      | Leave s1 \<Rightarrow> (Some m, s1))"
  by pat_completeness auto
termination
proof (relation "measure (\<lambda>(k, m, pis, s). case m of None \<Rightarrow> 0 | Some _ \<Rightarrow> Suc (files_behind s))",
       goal_cases)
  case 1
  show ?case by simp
next
  case (2 k m pis s c m' s')
  then have b: "findFileLT_body k m pis s = Continue (m', s')"
    by simp
  show ?case
  proof (cases m')
    case None
    then show ?thesis by simp
  next
    case (Some f)
    with findFileLT_body_decreases [of k m pis s f s'] b show ?thesis
      by simp
  qed
qed

lemma findFileLT_loop_rule:
  assumes "I k pis m s"
    and "\<And>k pis m s m' s'.
           I k pis (Some m) s \<Longrightarrow> findFileLT_body k m pis s = Continue (m', s') \<Longrightarrow> I k pis m' s'"
    and "\<And>k pis m s s1.
           I k pis (Some m) s \<Longrightarrow> findFileLT_body k m pis s = Leave s1 \<Longrightarrow> Q k pis (Some m, s1)"
    and "\<And>k pis s. I k pis None s \<Longrightarrow> Q k pis (None, s)"
  shows "Q k pis (findFileLT_loop k m pis s)"
  using assms(1)
proof (induction k m pis s rule: findFileLT_loop.induct)
  case (1 k pis s)
  then show ?case
    using assms(4) by simp
next
  case (2 k m pis s)
  show ?case
  proof (cases "findFileLT_body k m pis s")
    case (Continue c)
    obtain m' s' where c: "c = (m', s')"
      by (cases c) auto
    from Continue c have b: "findFileLT_body k m pis s = Continue (m', s')"
      by simp
    have "I k pis m' s'"
      by (rule assms(2) [OF "2.prems" b])
    then have "Q k pis (findFileLT_loop k m' pis s')"
      by (rule "2.IH" [OF Continue c [symmetric]])
    then show ?thesis
      by (simp add: b)
  next
    case (Leave s1)
    then show ?thesis
      using assms(3) [OF "2.prems"] by simp
  qed
qed

definition findFileLT ::
  "key \<Rightarrow> SeekLTFlags \<Rightarrow> ('it, 'rd) levelIter \<Rightarrow> fileMetadata option \<times> ('it, 'rd) levelIter" where
  "findFileLT k flags s =
     (let prevInsteadOfSeek =
            (RelativeSeekLT flags \<and>
             (case combinedIterState s of None \<Rightarrow> False | Some cs \<Rightarrow> \<not> initialized cs))
      in case (if prevInsteadOfSeek then (iterFile s, s) else files_SeekLT k s) of
           (m, s1) \<Rightarrow> findFileLT_loop k m prevInsteadOfSeek s1)"

definition initTableBounds ::
  "fileMetadata \<Rightarrow> ('it, 'rd) levelIter \<Rightarrow> int \<times> ('it, 'rd) levelIter" where
  "initTableBounds f s =
     (let s1 = s\<lparr>tableOpts_LowerBound := lower s\<rparr> in
      if (case tableOpts_LowerBound s1 of None \<Rightarrow> False
          | Some lb \<Rightarrow> cmp s1 (UserKey (LargestPointKey f)) lb < 0)
      then (-1, s1)
      else
        let s2 = (case tableOpts_LowerBound s1 of
                    None \<Rightarrow> s1
                  | Some lb \<Rightarrow>
                      if cmp s1 lb (UserKey (SmallestPointKey f)) \<le> 0
                      then s1\<lparr>tableOpts_LowerBound := None\<rparr> else s1);
            s3 = s2\<lparr>tableOpts_UpperBound := upper s2\<rparr>
        in
          if (case tableOpts_UpperBound s3 of None \<Rightarrow> False
              | Some ub \<Rightarrow> cmp s3 (UserKey (SmallestPointKey f)) ub \<ge> 0)
          then (1, s3)
          else
            (0, (case tableOpts_UpperBound s3 of
                   None \<Rightarrow> s3
                 | Some ub \<Rightarrow>
                     if cmp s3 ub (UserKey (LargestPointKey f)) > 0
                     then s3\<lparr>tableOpts_UpperBound := None\<rparr> else s3)))"

text \<open>
  Modelled from the spec: \<^verbatim>\<open>firstError\<close> is a helper of the package outside
  \<^verbatim>\<open>level_iter.go\<close>; the spec calls it ``first error wins'' composition.
\<close>

definition firstError :: "error option \<Rightarrow> error option \<Rightarrow> error option" where
  "firstError err0 err1 = (case err0 of Some e \<Rightarrow> Some e | None \<Rightarrow> err1)"

definition Close ::
  "('it, 'rd) env \<Rightarrow> ('it, 'rd) levelIter \<Rightarrow> error option \<times> ('it, 'rd) levelIter" where
  "Close E s =
     (let s1 = (case iter s of
                  None \<Rightarrow> s
                | Some it \<Rightarrow>
                    s\<lparr>err := it_Close E it, iter := None, trace := trace s @ [EvClosePoint]\<rparr>);
          s2 = (case rangeDelIterPtr s1 of
                  None \<Rightarrow> s1
                | Some c \<Rightarrow>
                    (let s1' = (case rangeDelIterCopy s1 of
                                  None \<Rightarrow> s1
                                | Some t \<Rightarrow>
                                    s1\<lparr>err := firstError (err s1) (rd_Close E t),
                                       trace := trace s1 @ [EvCloseRangeDel]\<rparr>)
                     in s1'\<lparr>rangeDelIterPtr := Some None, rangeDelIterCopy := None\<rparr>))
      in (err s2, s2))"

lemma files_initTableBounds [simp]: "files (snd (initTableBounds f s)) = files s"
  by (simp add: initTableBounds_def Let_def split: option.splits)

lemma files_ahead_initTableBounds [simp]:
  "files_ahead (snd (initTableBounds f s)) = files_ahead s"
  by (simp add: files_ahead_def)

lemma files_behind_initTableBounds [simp]:
  "files_behind (snd (initTableBounds f s)) = files_behind s"
  by (simp add: files_behind_def)

text \<open>
  The body of the \<^verbatim>\<open>for\<close> loop of \<^verbatim>\<open>loadFile\<close> for a file \<open>f\<close>, and the loop, entered
  after \<^verbatim>\<open>Close\<close> succeeded.
\<close>

definition loadFile_body ::
  "fileMetadata \<Rightarrow> dir \<Rightarrow> ('it, 'rd) levelIter \<Rightarrow>
   (fileMetadata option \<times> ('it, 'rd) levelIter,
    loadFileReturnIndicator \<times> ('it, 'rd) levelIter) pass" where
  "loadFile_body f d s =
     (let s1 = maybeTriggerCombinedIteration (Some f) d (s\<lparr>iterFile := Some f\<rparr>) in
      if \<not> HasPointKeys f then
        (case d of Fwd \<Rightarrow> Continue (files_Next s1) | Bwd \<Rightarrow> Continue (files_Prev s1))
      else
        (case initTableBounds f s1 of
           (r, s2) \<Rightarrow>
             if r = -1 then
               (if dirInt d < 0 then Leave (noFileLoaded, s2) else Continue (files_Next s2))
             else if r = 1 then
               (if dirInt d > 0 then Leave (noFileLoaded, s2) else Continue (files_Prev s2))
             else
               (case newIters s2 f (tableOpts_LowerBound s2) (tableOpts_UpperBound s2)
                       (rangeDelIterPtr s2 \<noteq> None) of
                  Inl e \<Rightarrow>
                    Leave (noFileLoaded,
                           s2\<lparr>err := Some e, trace := trace s2 @ [EvNewIters f]\<rparr>)
                | Inr (point, rangeDeletion) \<Rightarrow>
                    Leave (newFileLoaded,
                      (let s3 = s2\<lparr>err := None, iter := Some point,
                                    trace := trace s2 @ [EvNewIters f]\<rparr>
                       in case rangeDelIterPtr s3 of
                            None \<Rightarrow> s3
                          | Some c \<Rightarrow> s3\<lparr>rangeDelIterPtr := Some rangeDeletion,
                                          rangeDelIterCopy := rangeDeletion\<rparr>)))))"

lemma files_ahead_iterFile [simp]: "files_ahead (s\<lparr>iterFile := x\<rparr>) = files_ahead s"
  by (simp add: files_ahead_def)

lemma files_behind_iterFile [simp]: "files_behind (s\<lparr>iterFile := x\<rparr>) = files_behind s"
  by (simp add: files_behind_def)

lemma initTableBounds_files_ahead:
  "initTableBounds f s = (r, s2) \<Longrightarrow> files_ahead s2 = files_ahead s"
  using files_ahead_initTableBounds [of f s] by simp

lemma initTableBounds_files_behind:
  "initTableBounds f s = (r, s2) \<Longrightarrow> files_behind s2 = files_behind s"
  using files_behind_initTableBounds [of f s] by simp

lemma loadFile_body_decreases:
  assumes "loadFile_body f d s = Continue (Some f', s')"
  shows "(case d of Fwd \<Rightarrow> files_ahead s' < files_ahead s
          | Bwd \<Rightarrow> files_behind s' < files_behind s)"
proof (cases d)
  case Fwd
  with assms show ?thesis
    by (auto simp: loadFile_body_def Let_def split: if_splits prod.splits sum.splits
        dest!: files_Next_ahead initTableBounds_files_ahead)
next
  case Bwd
  with assms show ?thesis
    by (auto simp: loadFile_body_def Let_def split: if_splits prod.splits sum.splits
        dest!: files_Prev_behind initTableBounds_files_behind)
qed

function loadFile_loop ::
  "fileMetadata option \<Rightarrow> dir \<Rightarrow> ('it, 'rd) levelIter \<Rightarrow>
   loadFileReturnIndicator \<times> ('it, 'rd) levelIter" where
  "loadFile_loop None d s = (noFileLoaded, s\<lparr>iterFile := None\<rparr>)"
| "loadFile_loop (Some f) d s =
     (case loadFile_body f d s of
        Continue (file', s') \<Rightarrow> loadFile_loop file' d s'
      | Leave r \<Rightarrow> r)"
  by pat_completeness auto
termination
proof (relation "measure (\<lambda>(m, d, s). case m of None \<Rightarrow> 0
                   | Some _ \<Rightarrow> Suc (case d of Fwd \<Rightarrow> files_ahead s | Bwd \<Rightarrow> files_behind s))",
       goal_cases)
  case 1
  show ?case by simp
next
  case (2 f d s c file' s')
  then have b: "loadFile_body f d s = Continue (file', s')"
    by simp
  show ?case
  proof (cases file')
    case None
    then show ?thesis by simp
  next
    case (Some f')
    with loadFile_body_decreases [of f d s f' s'] b show ?thesis
      by (cases d) simp_all
  qed
qed

lemma loadFile_loop_rule:
  assumes "I d m s"
    and "\<And>d f s m' s'. I d (Some f) s \<Longrightarrow> loadFile_body f d s = Continue (m', s') \<Longrightarrow> I d m' s'"
    and "\<And>d f s r. I d (Some f) s \<Longrightarrow> loadFile_body f d s = Leave r \<Longrightarrow> Q d r"
    and "\<And>d s. I d None s \<Longrightarrow> Q d (noFileLoaded, s\<lparr>iterFile := None\<rparr>)"
  shows "Q d (loadFile_loop m d s)"
  using assms(1)
proof (induction m d s rule: loadFile_loop.induct)
  case (1 d s)
  then show ?case
    using assms(4) by simp
next
  case (2 f d s)
  show ?case
  proof (cases "loadFile_body f d s")
    case (Continue c)
    obtain m' s' where c: "c = (m', s')"
      by (cases c) auto
    from Continue c have b: "loadFile_body f d s = Continue (m', s')"
      by simp
    have "I d m' s'"
      by (rule assms(2) [OF "2.prems" b])
    then have "Q d (loadFile_loop m' d s')"
      by (rule "2.IH" [OF Continue c [symmetric]])
    then show ?thesis
      by (simp add: b)
  next
    case (Leave r)
    then show ?thesis
      using assms(3) [OF "2.prems"] by simp
  qed
qed

definition loadFile ::
  "('it, 'rd) env \<Rightarrow> fileMetadata option \<Rightarrow> dir \<Rightarrow> ('it, 'rd) levelIter \<Rightarrow>
   loadFileReturnIndicator \<times> ('it, 'rd) levelIter" where
  "loadFile E file d s0 =
     (let s = s0\<lparr>smallestBoundary := None, largestBoundary := None\<rparr> in
      if iterFile s = file \<and> err s \<noteq> None then (noFileLoaded, s)
      else if iterFile s = file \<and> iter s \<noteq> None then
        (fileAlreadyLoaded,
         maybeTriggerCombinedIteration file d
           (case rangeDelIterPtr s of
              None \<Rightarrow> s
            | Some c \<Rightarrow> s\<lparr>rangeDelIterPtr := Some (rangeDelIterCopy s)\<rparr>))
      else
        (case Close E s of
           (e, s1) \<Rightarrow> if e \<noteq> None then (noFileLoaded, s1) else loadFile_loop file d s1))"

text \<open>
  \<^verbatim>\<open>verify\<close>: the bound checks of invariant builds. \<open>kv.K.UserKey\<close> reads through the pointer.
\<close>

definition deref :: "('it, 'rd) levelIter \<Rightarrow> kvptr \<Rightarrow> InternalKV" where
  "deref s p = (case p of IterKV kv \<Rightarrow> kv | SynthKV \<Rightarrow> syntheticBoundary s)"

definition verify ::
  "('it, 'rd) env \<Rightarrow> kvptr option \<Rightarrow> ('it, 'rd) levelIter \<Rightarrow> ('it, 'rd) result" where
  "verify E kv s =
     (case kv of
        None \<Rightarrow> Inr (None, s)
      | Some p \<Rightarrow>
          if invariants_Enabled E \<and> \<not> disableInvariants s then
            (if (case lower s of None \<Rightarrow> False
                 | Some lo \<Rightarrow> Some p \<noteq> smallestBoundary s \<and>
                             cmp s (UserKey (K (deref s p))) lo < 0)
             then Inl FatalLowerBound
             else if (case upper s of None \<Rightarrow> False
                      | Some u \<Rightarrow> Some p \<noteq> largestBoundary s \<and>
                                  cmp s (UserKey (K (deref s p))) u > 0)
             then Inl FatalUpperBound
             else Inr (Some p, s))
          else Inr (Some p, s))"

text \<open>
  The skip routines loop until a file yields a key. On a state with no current file but an
  open inner iterator the source loops forever, so the model is a partial function: the
  value \<open>None\<close> stands for a loop that does not return.

  \<open>skipEmptyFileForward_pause\<close> is the block under \<^verbatim>\<open>if l.rangeDelIterPtr != nil\<close>:
  \<open>Some r\<close> when the block returns \<open>r\<close>, \<open>None\<close> when control falls through to the load
  of the next file.
\<close>

definition skipEmptyFileForward_pause ::
  "('it, 'rd) env \<Rightarrow> ('it, 'rd) levelIter \<Rightarrow> ('it, 'rd) result option" where
  "skipEmptyFileForward_pause E s =
     (case rangeDelIterPtr s of
        None \<Rightarrow> None
      | Some c \<Rightarrow>
          (case tableOpts_UpperBound s of
             Some ub \<Rightarrow>
               (let s1 = s\<lparr>exhaustedDir := 1\<rparr> in
                if c \<noteq> None then
                  (case makeSyntheticBoundary E ub s1 of
                     Inl p \<Rightarrow> Some (Inl p)
                   | Inr (b, s2) \<Rightarrow> Some (Inr (Some b, s2\<lparr>largestBoundary := Some b\<rparr>)))
                else Some (Inr (None, s1)))
           | None \<Rightarrow>
               if c \<noteq> None then
                 (case iterFile s of
                    None \<Rightarrow> Some (Inl NilDeref)
                  | Some f \<Rightarrow>
                      (case makeSyntheticBoundary E (UserKey (LargestPointKey f)) s of
                         Inl p \<Rightarrow> Some (Inl p)
                       | Inr (b, s2) \<Rightarrow> Some (Inr (Some b, s2\<lparr>largestBoundary := Some b\<rparr>))))
               else None))"

definition skipEmptyFileBackward_pause ::
  "('it, 'rd) env \<Rightarrow> ('it, 'rd) levelIter \<Rightarrow> ('it, 'rd) result option" where
  "skipEmptyFileBackward_pause E s =
     (case rangeDelIterPtr s of
        None \<Rightarrow> None
      | Some c \<Rightarrow>
          (case tableOpts_LowerBound s of
             Some lb \<Rightarrow>
               (let s1 = s\<lparr>exhaustedDir := -1\<rparr> in
                if c \<noteq> None then
                  (case makeSyntheticBoundary E lb s1 of
                     Inl p \<Rightarrow> Some (Inl p)
                   | Inr (b, s2) \<Rightarrow> Some (Inr (Some b, s2\<lparr>smallestBoundary := Some b\<rparr>)))
                else Some (Inr (None, s1)))
           | None \<Rightarrow>
               if c \<noteq> None then
                 (case iterFile s of
                    None \<Rightarrow> Some (Inl NilDeref)
                  | Some f \<Rightarrow>
                      (case makeSyntheticBoundary E (UserKey (SmallestPointKey f)) s of
                         Inl p \<Rightarrow> Some (Inl p)
                       | Inr (b, s2) \<Rightarrow> Some (Inr (Some b, s2\<lparr>smallestBoundary := Some b\<rparr>))))
               else None))"

text \<open>The bodies of the two skip loops, and the loops.\<close>

definition skipEmptyFileForward_body ::
  "('it, 'rd) env \<Rightarrow> ('it, 'rd) levelIter \<Rightarrow> (('it, 'rd) levelIter, ('it, 'rd) result) pass" where
  "skipEmptyFileForward_body E s =
     (case iter s of
        None \<Rightarrow> Leave (Inl NilDeref)
      | Some it \<Rightarrow>
          if it_Error E it \<noteq> None then Leave (Inr (None, s))
          else
            (case skipEmptyFileForward_pause E s of
               Some r \<Rightarrow> Leave r
             | None \<Rightarrow>
                 (case loadFile E (fst (files_Next s)) Fwd (snd (files_Next s)) of
                    (ind, s2) \<Rightarrow>
                      if ind = noFileLoaded then Leave (Inr (None, s2\<lparr>exhaustedDir := 1\<rparr>))
                      else
                        (case iter s2 of
                           None \<Rightarrow> Leave (Inl NilDeref)
                         | Some it2 \<Rightarrow>
                             (case it_First E it2 of
                                (Some kv, it3) \<Rightarrow>
                                  Leave (Inr (Some (IterKV kv), s2\<lparr>iter := Some it3\<rparr>))
                              | (None, it3) \<Rightarrow> Continue (s2\<lparr>iter := Some it3\<rparr>))))))"

definition skipEmptyFileBackward_body ::
  "('it, 'rd) env \<Rightarrow> ('it, 'rd) levelIter \<Rightarrow> (('it, 'rd) levelIter, ('it, 'rd) result) pass" where
  "skipEmptyFileBackward_body E s =
     (case iter s of
        None \<Rightarrow> Leave (Inl NilDeref)
      | Some it \<Rightarrow>
          if it_Error E it \<noteq> None then Leave (Inr (None, s))
          else
            (case skipEmptyFileBackward_pause E s of
               Some r \<Rightarrow> Leave r
             | None \<Rightarrow>
                 (case loadFile E (fst (files_Prev s)) Bwd (snd (files_Prev s)) of
                    (ind, s2) \<Rightarrow>
                      if ind = noFileLoaded then Leave (Inr (None, s2\<lparr>exhaustedDir := -1\<rparr>))
                      else
                        (case iter s2 of
                           None \<Rightarrow> Leave (Inl NilDeref)
                         | Some it2 \<Rightarrow>
                             (case it_Last E it2 of
                                (Some kv, it3) \<Rightarrow>
                                  Leave (Inr (Some (IterKV kv), s2\<lparr>iter := Some it3\<rparr>))
                              | (None, it3) \<Rightarrow> Continue (s2\<lparr>iter := Some it3\<rparr>))))))"

partial_function (option) skipEmptyFileForward ::
  "('it, 'rd) env \<Rightarrow> ('it, 'rd) levelIter \<Rightarrow> ('it, 'rd) result option" where
  "skipEmptyFileForward E s =
     (case skipEmptyFileForward_body E s of
        Continue s' \<Rightarrow> skipEmptyFileForward E s'
      | Leave r \<Rightarrow> Some r)"

partial_function (option) skipEmptyFileBackward ::
  "('it, 'rd) env \<Rightarrow> ('it, 'rd) levelIter \<Rightarrow> ('it, 'rd) result option" where
  "skipEmptyFileBackward E s =
     (case skipEmptyFileBackward_body E s of
        Continue s' \<Rightarrow> skipEmptyFileBackward E s'
      | Leave r \<Rightarrow> Some r)"

text \<open>
  The skip loops are partial: a property of a result they return, and a measure that makes
  them return.
\<close>

lemma skipEmptyFileForward_rule:
  assumes "skipEmptyFileForward E s = Some r" and "I s"
    and "\<And>s s'. I s \<Longrightarrow> skipEmptyFileForward_body E s = Continue s' \<Longrightarrow> I s'"
    and "\<And>s r. I s \<Longrightarrow> skipEmptyFileForward_body E s = Leave r \<Longrightarrow> Q r"
  shows "Q r"
proof -
  have "E = E \<longrightarrow> I s \<longrightarrow> Q r"
  proof (rule skipEmptyFileForward.raw_induct
      [where P = "\<lambda>E' s r. E' = E \<longrightarrow> I s \<longrightarrow> Q r", OF _ assms(1)], goal_cases)
    case (1 skip E' s r)
    then show ?case
      using assms(3,4) by (auto split: pass.splits)
  qed
  with assms(2) show ?thesis
    by simp
qed

lemma skipEmptyFileBackward_rule:
  assumes "skipEmptyFileBackward E s = Some r" and "I s"
    and "\<And>s s'. I s \<Longrightarrow> skipEmptyFileBackward_body E s = Continue s' \<Longrightarrow> I s'"
    and "\<And>s r. I s \<Longrightarrow> skipEmptyFileBackward_body E s = Leave r \<Longrightarrow> Q r"
  shows "Q r"
proof -
  have "E = E \<longrightarrow> I s \<longrightarrow> Q r"
  proof (rule skipEmptyFileBackward.raw_induct
      [where P = "\<lambda>E' s r. E' = E \<longrightarrow> I s \<longrightarrow> Q r", OF _ assms(1)], goal_cases)
    case (1 skip E' s r)
    then show ?case
      using assms(3,4) by (auto split: pass.splits)
  qed
  with assms(2) show ?thesis
    by simp
qed

lemma skipEmptyFileForward_terminates:
  fixes \<mu> :: "('it, 'rd) levelIter \<Rightarrow> nat"
  assumes "I s"
    and "\<And>s s'. I s \<Longrightarrow> skipEmptyFileForward_body E s = Continue s' \<Longrightarrow> I s' \<and> \<mu> s' < \<mu> s"
  shows "\<exists>r. skipEmptyFileForward E s = Some r"
  using assms(1)
proof (induction "\<mu> s" arbitrary: s rule: less_induct)
  case less
  show ?case
  proof (cases "skipEmptyFileForward_body E s")
    case (Continue s')
    with assms(2) [OF less.prems] have "I s'" "\<mu> s' < \<mu> s"
      by auto
    from less.hyps [OF this(2) this(1)] Continue show ?thesis
      by (subst skipEmptyFileForward.simps) simp
  next
    case (Leave r)
    then show ?thesis
      by (subst skipEmptyFileForward.simps) simp
  qed
qed

lemma skipEmptyFileBackward_terminates:
  fixes \<mu> :: "('it, 'rd) levelIter \<Rightarrow> nat"
  assumes "I s"
    and "\<And>s s'. I s \<Longrightarrow> skipEmptyFileBackward_body E s = Continue s' \<Longrightarrow> I s' \<and> \<mu> s' < \<mu> s"
  shows "\<exists>r. skipEmptyFileBackward E s = Some r"
  using assms(1)
proof (induction "\<mu> s" arbitrary: s rule: less_induct)
  case less
  show ?case
  proof (cases "skipEmptyFileBackward_body E s")
    case (Continue s')
    with assms(2) [OF less.prems] have "I s'" "\<mu> s' < \<mu> s"
      by auto
    from less.hyps [OF this(2) this(1)] Continue show ?thesis
      by (subst skipEmptyFileBackward.simps) simp
  next
    case (Leave r)
    then show ?thesis
      by (subst skipEmptyFileBackward.simps) simp
  qed
qed

text \<open>\<^verbatim>\<open>l.verify(l.skipEmptyFileForward())\<close>: \<^verbatim>\<open>verify\<close> applied to what a skip routine returned.\<close>

definition verify_result ::
  "('it, 'rd) env \<Rightarrow> ('it, 'rd) result option \<Rightarrow> ('it, 'rd) result option" where
  "verify_result E r =
     (case r of
        None \<Rightarrow> None
      | Some (Inl p) \<Rightarrow> Some (Inl p)
      | Some (Inr (kv, s)) \<Rightarrow> Some (verify E kv s))"

text \<open>
  The common tail of the positioning operations: the result \<open>(kv, it')\<close> of a call on the
  inner iterator is stored, a key is verified and returned, and on \<^verbatim>\<open>nil\<close> the skip
  routine runs.
\<close>

definition forward_tail ::
  "('it, 'rd) env \<Rightarrow> InternalKV option \<times> 'it \<Rightarrow> ('it, 'rd) levelIter \<Rightarrow>
   ('it, 'rd) result option" where
  "forward_tail E r s =
     (case r of
        (Some kv, it') \<Rightarrow> Some (verify E (Some (IterKV kv)) (s\<lparr>iter := Some it'\<rparr>))
      | (None, it') \<Rightarrow> verify_result E (skipEmptyFileForward E (s\<lparr>iter := Some it'\<rparr>)))"

definition backward_tail ::
  "('it, 'rd) env \<Rightarrow> InternalKV option \<times> 'it \<Rightarrow> ('it, 'rd) levelIter \<Rightarrow>
   ('it, 'rd) result option" where
  "backward_tail E r s =
     (case r of
        (Some kv, it') \<Rightarrow> Some (verify E (Some (IterKV kv)) (s\<lparr>iter := Some it'\<rparr>))
      | (None, it') \<Rightarrow> verify_result E (skipEmptyFileBackward E (s\<lparr>iter := Some it'\<rparr>)))"

definition SeekGE ::
  "('it, 'rd) env \<Rightarrow> key \<Rightarrow> SeekGEFlags \<Rightarrow> ('it, 'rd) levelIter \<Rightarrow> ('it, 'rd) result option" where
  "SeekGE E k flags s0 =
     (if invariants_Enabled E \<and>
         (case lower s0 of None \<Rightarrow> False | Some lo \<Rightarrow> cmp s0 k lo < 0)
      then Some (Inl AssertSeekGELower)
      else
        let s = s0\<lparr>err := None, exhaustedDir := 0\<rparr> in
        case findFileGE k flags s of
          (m, s1) \<Rightarrow>
            (case loadFile E m Fwd s1 of
               (loadFileIndicator, s2) \<Rightarrow>
                 if loadFileIndicator = noFileLoaded then
                   Some (Inr (None, s2\<lparr>exhaustedDir := 1\<rparr>))
                 else
                   let flags' = (if loadFileIndicator = newFileLoaded
                                 then DisableTrySeekUsingNext flags else flags) in
                   (case iter s2 of
                      None \<Rightarrow> Some (Inl NilDeref)
                    | Some it \<Rightarrow> forward_tail E (it_SeekGE E k flags' it) s2)))"

text \<open>
  The part of \<^verbatim>\<open>SeekPrefixGE\<close> after the inner \<^verbatim>\<open>SeekPrefixGE\<close> returned \<^verbatim>\<open>nil\<close>, on the
  state that holds the inner iterator as that call left it.
\<close>

definition SeekPrefixGE_miss ::
  "('it, 'rd) env \<Rightarrow> key \<Rightarrow> ('it, 'rd) levelIter \<Rightarrow> ('it, 'rd) result option" where
  "SeekPrefixGE_miss E prefix s3 =
     (case iter s3 of
        None \<Rightarrow> Some (Inl NilDeref)
      | Some it' \<Rightarrow>
          if it_Error E it' \<noteq> None then Some (Inr (None, s3))
          else if emitSyntheticBoundaries s3 then
            (case tableOpts_UpperBound s3 of
               Some ub \<Rightarrow>
                 (case makeSyntheticBoundary E ub s3 of
                    Inl p \<Rightarrow> Some (Inl p)
                  | Inr (b, s4) \<Rightarrow>
                      Some (verify E (Some b)
                             (s4\<lparr>largestBoundary := Some b, exhaustedDir := 1\<rparr>)))
             | None \<Rightarrow>
                 (case iterFile s3 of
                    None \<Rightarrow> Some (Inl NilDeref)
                  | Some f \<Rightarrow>
                      (case makeSyntheticBoundary E (UserKey (LargestPointKey f)) s3 of
                         Inl p \<Rightarrow> Some (Inl p)
                       | Inr (b, s4) \<Rightarrow>
                           Some (verify E (Some b) (s4\<lparr>largestBoundary := Some b\<rparr>)))))
          else
            (case iterFile s3 of
               None \<Rightarrow> Some (Inl NilDeref)
             | Some f \<Rightarrow>
                 (let n = split s3 (UserKey (LargestPointKey f)) in
                  if cmp s3 prefix (take n (UserKey (LargestPointKey f))) < 0
                  then Some (Inr (None, s3\<lparr>exhaustedDir := 1\<rparr>))
                  else verify_result E (skipEmptyFileForward E s3))))"

definition SeekPrefixGE ::
  "('it, 'rd) env \<Rightarrow> key \<Rightarrow> key \<Rightarrow> SeekGEFlags \<Rightarrow> ('it, 'rd) levelIter \<Rightarrow>
   ('it, 'rd) result option" where
  "SeekPrefixGE E prefix k flags s0 =
     (if invariants_Enabled E \<and>
         (case lower s0 of None \<Rightarrow> False | Some lo \<Rightarrow> cmp s0 k lo < 0)
      then Some (Inl AssertSeekGELower)
      else
        let s = s0\<lparr>err := None, exhaustedDir := 0\<rparr> in
        case findFileGE k flags s of
          (m, s1) \<Rightarrow>
            (case loadFile E m Fwd s1 of
               (loadFileIndicator, s2) \<Rightarrow>
                 if loadFileIndicator = noFileLoaded then
                   Some (Inr (None, s2\<lparr>exhaustedDir := 1\<rparr>))
                 else
                   let flags' = (if loadFileIndicator = newFileLoaded
                                 then DisableTrySeekUsingNext flags else flags) in
                   (case iter s2 of
                      None \<Rightarrow> Some (Inl NilDeref)
                    | Some it \<Rightarrow>
                        (case it_SeekPrefixGE E prefix k flags' it of
                           (Some kv, it') \<Rightarrow>
                             Some (verify E (Some (IterKV kv)) (s2\<lparr>iter := Some it'\<rparr>))
                         | (None, it') \<Rightarrow>
                             SeekPrefixGE_miss E prefix (s2\<lparr>iter := Some it'\<rparr>)))))"

definition SeekLT ::
  "('it, 'rd) env \<Rightarrow> key \<Rightarrow> SeekLTFlags \<Rightarrow> ('it, 'rd) levelIter \<Rightarrow> ('it, 'rd) result option" where
  "SeekLT E k flags s0 =
     (if invariants_Enabled E \<and>
         (case upper s0 of None \<Rightarrow> False | Some u \<Rightarrow> cmp s0 k u > 0)
      then Some (Inl AssertSeekLTUpper)
      else
        let s = s0\<lparr>err := None, exhaustedDir := 0\<rparr> in
        case findFileLT k flags s of
          (m, s1) \<Rightarrow>
            (case loadFile E m Bwd s1 of
               (loadFileIndicator, s2) \<Rightarrow>
                 if loadFileIndicator = noFileLoaded then
                   Some (Inr (None, s2\<lparr>exhaustedDir := -1\<rparr>))
                 else
                   (case iter s2 of
                      None \<Rightarrow> Some (Inl NilDeref)
                    | Some it \<Rightarrow> backward_tail E (it_SeekLT E k flags it) s2)))"

definition First :: "('it, 'rd) env \<Rightarrow> ('it, 'rd) levelIter \<Rightarrow> ('it, 'rd) result option" where
  "First E s0 =
     (if invariants_Enabled E \<and> lower s0 \<noteq> None then Some (Inl AssertFirstLower)
      else
        let s = s0\<lparr>err := None, exhaustedDir := 0\<rparr> in
        case files_First s of
          (m, s1) \<Rightarrow>
            (case loadFile E m Fwd s1 of
               (loadFileIndicator, s2) \<Rightarrow>
                 if loadFileIndicator = noFileLoaded then
                   Some (Inr (None, s2\<lparr>exhaustedDir := 1\<rparr>))
                 else
                   (case iter s2 of
                      None \<Rightarrow> Some (Inl NilDeref)
                    | Some it \<Rightarrow> forward_tail E (it_First E it) s2)))"

definition Last :: "('it, 'rd) env \<Rightarrow> ('it, 'rd) levelIter \<Rightarrow> ('it, 'rd) result option" where
  "Last E s0 =
     (if invariants_Enabled E \<and> upper s0 \<noteq> None then Some (Inl AssertLastUpper)
      else
        let s = s0\<lparr>err := None, exhaustedDir := 0\<rparr> in
        case files_Last s of
          (m, s1) \<Rightarrow>
            (case loadFile E m Bwd s1 of
               (loadFileIndicator, s2) \<Rightarrow>
                 if loadFileIndicator = noFileLoaded then
                   Some (Inr (None, s2\<lparr>exhaustedDir := -1\<rparr>))
                 else
                   (case iter s2 of
                      None \<Rightarrow> Some (Inl NilDeref)
                    | Some it \<Rightarrow> backward_tail E (it_Last E it) s2)))"

text \<open>\<^verbatim>\<open>if l.rangeDelIterPtr != nil { *l.rangeDelIterPtr = nil }\<close>\<close>

definition clearRangeDelSlot :: "('it, 'rd) levelIter \<Rightarrow> ('it, 'rd) levelIter" where
  "clearRangeDelSlot s =
     (case rangeDelIterPtr s of None \<Rightarrow> s | Some c \<Rightarrow> s\<lparr>rangeDelIterPtr := Some None\<rparr>)"

definition Next :: "('it, 'rd) env \<Rightarrow> ('it, 'rd) levelIter \<Rightarrow> ('it, 'rd) result option" where
  "Next E s =
     (if exhaustedDir s = -1 then
        (case lower s of
           Some lo \<Rightarrow> SeekGE E lo SeekGEFlagsNone s
         | None \<Rightarrow> First E s)
      else if err s \<noteq> None \<or> iter s = None then Some (Inr (None, s))
      else if largestBoundary s \<noteq> None then
        (if tableOpts_UpperBound s \<noteq> None then
           Some (Inr (None, (clearRangeDelSlot s)\<lparr>exhaustedDir := 1\<rparr>))
         else
           (case loadFile E (fst (files_Next s)) Fwd (snd (files_Next s)) of
              (ind, s2) \<Rightarrow>
                if ind \<noteq> noFileLoaded then
                  (case iter s2 of
                     None \<Rightarrow> Some (Inl NilDeref)
                   | Some it \<Rightarrow> forward_tail E (it_First E it) s2)
                else Some (Inr (None, s2\<lparr>exhaustedDir := 1\<rparr>))))
      else
        (let s1 = s\<lparr>smallestBoundary := None\<rparr> in
         case iter s1 of
           None \<Rightarrow> Some (Inl NilDeref)
         | Some it \<Rightarrow> forward_tail E (it_Next E it) s1))"

text \<open>The flags \<^verbatim>\<open>NextPrefix\<close> builds for its call of \<^verbatim>\<open>findFileGE\<close> (the local \<^verbatim>\<open>metadataSeekFlags\<close>).\<close>

definition metadataSeekFlags :: SeekGEFlags where
  "metadataSeekFlags = EnableRelativeSeek (EnableTrySeekUsingNext SeekGEFlagsNone)"

text \<open>The part of \<^verbatim>\<open>NextPrefix\<close> after the \<^verbatim>\<open>switch\<close>: the seek to a later file.\<close>

definition NextPrefix_seek ::
  "('it, 'rd) env \<Rightarrow> key \<Rightarrow> ('it, 'rd) levelIter \<Rightarrow> ('it, 'rd) result option" where
  "NextPrefix_seek E succKey s =
     (case findFileGE succKey metadataSeekFlags s of
        (m, s1) \<Rightarrow>
          (case loadFile E m Fwd s1 of
             (ind, s2) \<Rightarrow>
               if ind \<noteq> noFileLoaded then
                 (case iter s2 of
                    None \<Rightarrow> Some (Inl NilDeref)
                  | Some it \<Rightarrow> forward_tail E (it_SeekGE E succKey SeekGEFlagsNone it) s2)
               else Some (Inr (None, s2\<lparr>exhaustedDir := 1\<rparr>))))"

definition NextPrefix ::
  "('it, 'rd) env \<Rightarrow> key \<Rightarrow> ('it, 'rd) levelIter \<Rightarrow> ('it, 'rd) result option" where
  "NextPrefix E succKey s =
     (if err s \<noteq> None \<or> iter s = None then Some (Inr (None, s))
      else if largestBoundary s \<noteq> None then
        (if tableOpts_UpperBound s \<noteq> None then Some (Inr (None, clearRangeDelSlot s))
         else NextPrefix_seek E succKey s)
      else
        (let s1 = s\<lparr>smallestBoundary := None\<rparr> in
         case iter s1 of
           None \<Rightarrow> Some (Inl NilDeref)
         | Some it \<Rightarrow>
             (case it_NextPrefix E succKey it of
                (Some kv, it') \<Rightarrow> Some (verify E (Some (IterKV kv)) (s1\<lparr>iter := Some it'\<rparr>))
              | (None, it') \<Rightarrow>
                  if it_Error E it' \<noteq> None then Some (Inr (None, s1\<lparr>iter := Some it'\<rparr>))
                  else NextPrefix_seek E succKey (s1\<lparr>iter := Some it'\<rparr>))))"

definition Prev :: "('it, 'rd) env \<Rightarrow> ('it, 'rd) levelIter \<Rightarrow> ('it, 'rd) result option" where
  "Prev E s =
     (if exhaustedDir s = 1 then
        (case upper s of
           Some u \<Rightarrow> SeekLT E u SeekLTFlagsNone s
         | None \<Rightarrow> Last E s)
      else if err s \<noteq> None \<or> iter s = None then Some (Inr (None, s))
      else if smallestBoundary s \<noteq> None then
        (if tableOpts_LowerBound s \<noteq> None then
           Some (Inr (None, (clearRangeDelSlot s)\<lparr>exhaustedDir := -1\<rparr>))
         else
           (case loadFile E (fst (files_Prev s)) Bwd (snd (files_Prev s)) of
              (ind, s2) \<Rightarrow>
                if ind \<noteq> noFileLoaded then
                  (case iter s2 of
                     None \<Rightarrow> Some (Inl NilDeref)
                   | Some it \<Rightarrow> backward_tail E (it_Last E it) s2)
                else Some (Inr (None, s2\<lparr>exhaustedDir := -1\<rparr>))))
      else
        (let s1 = s\<lparr>largestBoundary := None\<rparr> in
         case iter s1 of
           None \<Rightarrow> Some (Inl NilDeref)
         | Some it \<Rightarrow> backward_tail E (it_Prev E it) s1))"

definition Error :: "('it, 'rd) env \<Rightarrow> ('it, 'rd) levelIter \<Rightarrow> error option" where
  "Error E s =
     (case iter s of
        None \<Rightarrow> err s
      | Some it \<Rightarrow> if err s \<noteq> None then err s else it_Error E it)"

definition SetBounds ::
  "('it, 'rd) env \<Rightarrow> key option \<Rightarrow> key option \<Rightarrow> ('it, 'rd) levelIter \<Rightarrow>
   panic + ('it, 'rd) levelIter" where
  "SetBounds E lo up s0 =
     (let s = s0\<lparr>lower := lo, upper := up\<rparr> in
      case iter s of
        None \<Rightarrow> Inr s
      | Some it \<Rightarrow>
          (case iterFile s of
             None \<Rightarrow>
               if lo = None \<and> up = None then
                 Inr (s\<lparr>tableOpts_LowerBound := None, tableOpts_UpperBound := None,
                        iter := Some (it_SetBounds E None None it)\<rparr>)
               else Inl NilDeref
           | Some f \<Rightarrow>
               (case initTableBounds f s of
                  (r, s1) \<Rightarrow>
                    if r \<noteq> 0 then Inr (snd (Close E s1))
                    else Inr (s1\<lparr>iter := Some (it_SetBounds E (tableOpts_LowerBound s1)
                                                 (tableOpts_UpperBound s1) it)\<rparr>))))"

text \<open>
  The state \<^verbatim>\<open>newLevelIter\<close> returns: a zero struct after \<^verbatim>\<open>init\<close>, before
  \<^verbatim>\<open>initRangeDel\<close> and \<^verbatim>\<open>initCombinedIterState\<close>.
\<close>

definition newLevelIter ::
  "key option \<Rightarrow> key option \<Rightarrow> (key \<Rightarrow> key \<Rightarrow> int) \<Rightarrow> (key \<Rightarrow> nat) \<Rightarrow>
   (fileMetadata \<Rightarrow> key option \<Rightarrow> key option \<Rightarrow> bool \<Rightarrow> error + ('it \<times> 'rd option)) \<Rightarrow>
   LevelIterator \<Rightarrow> ('it, 'rd) levelIter" where
  "newLevelIter lo up compare splitf opener fs =
     \<lparr>cmp = compare, split = splitf, lower = lo, upper = up,
      tableOpts_LowerBound = None, tableOpts_UpperBound = None,
      smallestBoundary = None, largestBoundary = None,
      syntheticBoundary = \<lparr>K = \<lparr>UserKey = [], ExclusiveSentinel = False\<rparr>, V = []\<rparr>,
      combinedIterState = None, iter = None, iterFile = None, newIters = opener,
      rangeDelIterPtr = None, rangeDelIterCopy = None, files = fs, err = None,
      exhaustedDir = 0, disableInvariants = False, trace = []\<rparr>"

definition initRangeDel :: "'rd option \<Rightarrow> ('it, 'rd) levelIter \<Rightarrow> ('it, 'rd) levelIter" where
  "initRangeDel cell s = s\<lparr>rangeDelIterPtr := Some cell\<rparr>"

definition initCombinedIterState ::
  "combinedIterState \<Rightarrow> ('it, 'rd) levelIter \<Rightarrow> ('it, 'rd) levelIter" where
  "initCombinedIterState st s = s\<lparr>combinedIterState := Some st\<rparr>"

section \<open>A table of sorted keys as the inner iterator\<close>

text \<open>
  Modelled from the spec: the sstable point iterator and the table opener are code of other
  packages; the spec treats them ``as black boxes producing sorted key/value pairs'' that
  enforce the per-table bounds they are opened with. The iterator is the list of the table's
  point keys, the bounds and an index into the keys within the bounds (\<open>-1\<close> before the
  first, the length after the last). It never fails, and the hint flags do not change what a
  seek returns.
\<close>

record sstIter =
  sst_cmp :: "key \<Rightarrow> key \<Rightarrow> int"
  sst_split :: "key \<Rightarrow> nat"
  sst_kvs :: "InternalKV list"
  sst_lower :: "key option"
  sst_upper :: "key option"
  sst_pos :: int

definition sst_visible :: "sstIter \<Rightarrow> InternalKV list" where
  "sst_visible it =
     filter (\<lambda>kv. (case sst_lower it of None \<Rightarrow> True
                    | Some lo \<Rightarrow> sst_cmp it (UserKey (K kv)) lo \<ge> 0) \<and>
                   (case sst_upper it of None \<Rightarrow> True
                    | Some u \<Rightarrow> sst_cmp it (UserKey (K kv)) u < 0))
       (sst_kvs it)"

definition sst_at :: "sstIter \<Rightarrow> InternalKV option \<times> sstIter" where
  "sst_at it =
     ((if 0 \<le> sst_pos it \<and> sst_pos it < int (length (sst_visible it))
       then Some (sst_visible it ! nat (sst_pos it)) else None), it)"

definition sst_First :: "sstIter \<Rightarrow> InternalKV option \<times> sstIter" where
  "sst_First it = sst_at (it\<lparr>sst_pos := 0\<rparr>)"

definition sst_Last :: "sstIter \<Rightarrow> InternalKV option \<times> sstIter" where
  "sst_Last it = sst_at (it\<lparr>sst_pos := int (length (sst_visible it)) - 1\<rparr>)"

definition sst_Next :: "sstIter \<Rightarrow> InternalKV option \<times> sstIter" where
  "sst_Next it =
     sst_at (if sst_pos it < int (length (sst_visible it))
             then it\<lparr>sst_pos := sst_pos it + 1\<rparr> else it)"

definition sst_Prev :: "sstIter \<Rightarrow> InternalKV option \<times> sstIter" where
  "sst_Prev it = sst_at (if 0 \<le> sst_pos it then it\<lparr>sst_pos := sst_pos it - 1\<rparr> else it)"

definition sst_SeekGE :: "key \<Rightarrow> SeekGEFlags \<Rightarrow> sstIter \<Rightarrow> InternalKV option \<times> sstIter" where
  "sst_SeekGE k flags it =
     sst_at (it\<lparr>sst_pos :=
               int (length (takeWhile (\<lambda>kv. sst_cmp it (UserKey (K kv)) k < 0)
                              (sst_visible it)))\<rparr>)"

definition sst_SeekPrefixGE ::
  "key \<Rightarrow> key \<Rightarrow> SeekGEFlags \<Rightarrow> sstIter \<Rightarrow> InternalKV option \<times> sstIter" where
  "sst_SeekPrefixGE prefix k flags it =
     (case sst_SeekGE k flags it of
        (Some kv, it') \<Rightarrow>
          if sst_cmp it (take (sst_split it (UserKey (K kv))) (UserKey (K kv))) prefix = 0
          then (Some kv, it') else (None, it')
      | (None, it') \<Rightarrow> (None, it'))"

definition sst_SeekLT :: "key \<Rightarrow> SeekLTFlags \<Rightarrow> sstIter \<Rightarrow> InternalKV option \<times> sstIter" where
  "sst_SeekLT k flags it =
     sst_at (it\<lparr>sst_pos :=
               int (length (takeWhile (\<lambda>kv. sst_cmp it (UserKey (K kv)) k < 0)
                              (sst_visible it))) - 1\<rparr>)"

definition sst_NextPrefix :: "key \<Rightarrow> sstIter \<Rightarrow> InternalKV option \<times> sstIter" where
  "sst_NextPrefix succKey it = sst_SeekGE succKey SeekGEFlagsNone it"

definition sst_SetBounds :: "key option \<Rightarrow> key option \<Rightarrow> sstIter \<Rightarrow> sstIter" where
  "sst_SetBounds lo up it = it\<lparr>sst_lower := lo, sst_upper := up, sst_pos := -1\<rparr>"

definition sstEnv :: "bool \<Rightarrow> (sstIter, 'rd) env" where
  "sstEnv invariantsOn =
     \<lparr>invariants_Enabled = invariantsOn,
      it_SeekGE = sst_SeekGE, it_SeekPrefixGE = sst_SeekPrefixGE, it_SeekLT = sst_SeekLT,
      it_First = sst_First, it_Last = sst_Last, it_Next = sst_Next,
      it_NextPrefix = sst_NextPrefix, it_Prev = sst_Prev,
      it_Error = (\<lambda>it. None), it_Close = (\<lambda>it. None), it_SetBounds = sst_SetBounds,
      rd_Close = (\<lambda>rd. None)\<rparr>"

text \<open>
  The opener of a level whose file \<open>f\<close> holds the point keys \<open>contents f\<close> and, when it has
  range deletions, the tombstone iterator \<open>tombstones f\<close>.
\<close>

definition sstOpener ::
  "(key \<Rightarrow> key \<Rightarrow> int) \<Rightarrow> (key \<Rightarrow> nat) \<Rightarrow> (fileMetadata \<Rightarrow> InternalKV list) \<Rightarrow>
   (fileMetadata \<Rightarrow> 'rd option) \<Rightarrow>
   fileMetadata \<Rightarrow> key option \<Rightarrow> key option \<Rightarrow> bool \<Rightarrow> error + (sstIter \<times> 'rd option)" where
  "sstOpener compare splitf contents tombstones f lo up wantRangeDel =
     Inr (\<lparr>sst_cmp = compare, sst_split = splitf, sst_kvs = contents f,
           sst_lower = lo, sst_upper = up, sst_pos = -1\<rparr>,
          if wantRangeDel then tombstones f else None)"

text \<open>Modelled from the spec: the ``byte-order comparator'' of the scenarios.\<close>

fun bytesCompare :: "key \<Rightarrow> key \<Rightarrow> int" where
  "bytesCompare [] [] = 0"
| "bytesCompare [] (y # ys) = -1"
| "bytesCompare (x # xs) [] = 1"
| "bytesCompare (x # xs) (y # ys) =
     (if (of_char x :: nat) < of_char y then -1
      else if (of_char y :: nat) < of_char x then 1
      else bytesCompare xs ys)"

text \<open>A point key, and a file that holds the given point keys and nothing else.\<close>

definition pointKV :: "key \<Rightarrow> InternalKV" where
  "pointKV k = \<lparr>K = \<lparr>UserKey = k, ExclusiveSentinel = False\<rparr>, V = []\<rparr>"

definition pointFile :: "nat \<Rightarrow> key \<Rightarrow> key \<Rightarrow> fileMetadata" where
  "pointFile n lo hi =
     \<lparr>FileNum = n,
      SmallestPointKey = \<lparr>UserKey = lo, ExclusiveSentinel = False\<rparr>,
      LargestPointKey = \<lparr>UserKey = hi, ExclusiveSentinel = False\<rparr>,
      SmallestRangeKey = \<lparr>UserKey = [], ExclusiveSentinel = False\<rparr>,
      LargestRangeKey = \<lparr>UserKey = [], ExclusiveSentinel = False\<rparr>,
      HasPointKeys = True, HasRangeKeys = False, StatsValid = False, NumRangeKeySets = 0\<rparr>"

declare skipEmptyFileForward.simps [code]
declare skipEmptyFileBackward.simps [code]

text \<open>Reading a result: the state an operation returned (\<open>d\<close> when it did not return one).\<close>

definition stateOr :: "('it, 'rd) levelIter \<Rightarrow> ('it, 'rd) result option \<Rightarrow> ('it, 'rd) levelIter" where
  "stateOr d r = (case r of Some (Inr (kv, s)) \<Rightarrow> s | _ \<Rightarrow> d)"

text \<open>The user key an operation returned: \<open>Some (Inr None)\<close> is a returned \<^verbatim>\<open>nil\<close>.\<close>

definition returnedKey :: "('it, 'rd) result option \<Rightarrow> (panic + key option) option" where
  "returnedKey r =
     (case r of
        None \<Rightarrow> None
      | Some (Inl p) \<Rightarrow> Some (Inl p)
      | Some (Inr (kv, s)) \<Rightarrow> Some (Inr (map_option (\<lambda>p. UserKey (K (deref s p))) kv)))"

section \<open>Scenario levels\<close>

text \<open>
  A level over the byte-order comparator whose prefix is the whole key, opened through the
  table model; \<open>tombstones f\<close> is the handle of the range-deletion iterator of \<open>f\<close>.
\<close>

definition mkLevel ::
  "key option \<Rightarrow> key option \<Rightarrow> (fileMetadata \<Rightarrow> InternalKV list) \<Rightarrow>
   (fileMetadata \<Rightarrow> nat option) \<Rightarrow> fileMetadata list \<Rightarrow> (sstIter, nat) levelIter" where
  "mkLevel lo up contents tombstones fs =
     newLevelIter lo up bytesCompare length (sstOpener bytesCompare length contents tombstones)
       \<lparr>cfiles = fs, cpos = -1\<rparr>"

definition envOn :: "(sstIter, nat) env" where
  "envOn = sstEnv True"

text \<open>The level \<open>[a, c] | [e, g]\<close>.\<close>

definition twoFiles :: "fileMetadata list" where
  "twoFiles = [pointFile 0 ''a'' ''c'', pointFile 1 ''e'' ''g'']"

definition twoFilesContents :: "fileMetadata \<Rightarrow> InternalKV list" where
  "twoFilesContents f =
     (if FileNum f = 0 then [pointKV ''a'', pointKV ''c''] else [pointKV ''e'', pointKV ''g''])"




text \<open>
  Upper bound \<open>f\<close> inside the second file, a registered slot, every file with tombstones
  (handle \<open>7\<close>) or none: the iterator was sought to \<open>e\<close> and the inner iterator stepped to
  the bound.
\<close>

definition upperIn_level :: "nat option \<Rightarrow> (sstIter, nat) levelIter" where
  "upperIn_level rd =
     initRangeDel None (mkLevel None (Some ''f'') twoFilesContents (\<lambda>f. rd) twoFiles)"


text \<open>The same level paused at its upper bound: \<^verbatim>\<open>SeekGE(e)\<close>, then \<^verbatim>\<open>Next\<close>.\<close>

definition upperIn_paused :: "(sstIter, nat) levelIter" where
  "upperIn_paused =
     stateOr (upperIn_level (Some 7))
       (Next envOn (stateOr (upperIn_level (Some 7))
          (SeekGE envOn ''e'' SeekGEFlagsNone (upperIn_level (Some 7)))))"

text \<open>
  Lower bound \<open>b\<close> inside the first file, tombstones, paused at the lower bound:
  \<^verbatim>\<open>SeekLT(c)\<close> finds no key in \<open>[b, c)\<close>.
\<close>

definition lowerIn_level :: "(sstIter, nat) levelIter" where
  "lowerIn_level =
     initRangeDel None (mkLevel (Some ''b'') None twoFilesContents (\<lambda>f. Some 7) twoFiles)"

definition lowerIn_paused :: "(sstIter, nat) levelIter" where
  "lowerIn_paused =
     stateOr lowerIn_level (SeekLT envOn ''c'' SeekLTFlagsNone lowerIn_level)"

section \<open>The bounds-induced pause of the forward skip routine\<close>




section \<open>Close\<close>

text \<open>What closing the point iterator and the tombstone iterator returns; \<open>None\<close> when there is nothing to close.\<close>

definition pointCloseError :: "('it, 'rd) env \<Rightarrow> ('it, 'rd) levelIter \<Rightarrow> error option" where
  "pointCloseError E s = (case iter s of None \<Rightarrow> None | Some it \<Rightarrow> it_Close E it)"

definition rangeDelCloseError :: "('it, 'rd) env \<Rightarrow> ('it, 'rd) levelIter \<Rightarrow> error option" where
  "rangeDelCloseError E s =
     (case rangeDelIterPtr s of
        None \<Rightarrow> None
      | Some c \<Rightarrow> (case rangeDelIterCopy s of None \<Rightarrow> None | Some t \<Rightarrow> rd_Close E t))"

text \<open>An environment in which closing either iterator fails.\<close>

definition closeFailEnv :: "(sstIter, nat) env" where
  "closeFailEnv =
     envOn\<lparr>it_Close := (\<lambda>it. Some ''point close failed''),
           rd_Close := (\<lambda>rd. Some ''tombstone close failed'')\<rparr>"

lemma Close_again: "Close E (snd (Close E s)) = Close E s"
  by (simp add: Close_def Let_def split: option.splits)

lemma Close_iter [simp]: "iter (snd (Close E s)) = None"
  by (simp add: Close_def Let_def split: option.splits)

lemma Close_fst: "fst (Close E s) = err (snd (Close E s))"
  by (simp add: Close_def Let_def)

lemma Close_slot:
  "rangeDelIterPtr s \<noteq> None \<Longrightarrow>
   rangeDelIterPtr (snd (Close E s)) = Some None \<and> rangeDelIterCopy (snd (Close E s)) = None"
  by (auto simp: Close_def Let_def split: option.splits)

lemma Close_trace:
  "trace (snd (Close E s)) =
     trace s @ (if iter s \<noteq> None then [EvClosePoint] else []) @
     (if rangeDelIterPtr s \<noteq> None \<and> rangeDelIterCopy s \<noteq> None then [EvCloseRangeDel] else [])"
  by (auto simp: Close_def Let_def split: option.splits)

lemma Close_error:
  "fst (Close E s) =
     firstError (case iter s of None \<Rightarrow> err s | Some it \<Rightarrow> it_Close E it)
       (rangeDelCloseError E s)"
  by (simp add: Close_def Let_def firstError_def rangeDelCloseError_def split: option.splits)

text \<open>
  C8. \<^verbatim>\<open>Close\<close> closes the point iterator and, through the private copy, the tombstone
  iterator (one call each, recorded in the trace), sets \<open>iter\<close> to nil, and when a slot
  is registered nulls the slot and the copy. On a state that keeps the struct's invariant
  that \<open>iter\<close> is nil while an error is stored, the error it returns is the stored error,
  else the point iterator's close error, else the tombstone iterator's: first error wins.
  A second call returns the same error and leaves the whole state as it is, trace included,
  so it closes nothing again.
\<close>

theorem Close_first_error_wins_idempotent:
  "Close E (snd (Close E s)) = Close E s \<and>
   iter (snd (Close E s)) = None \<and>
   (rangeDelIterPtr s \<noteq> None \<longrightarrow>
      rangeDelIterPtr (snd (Close E s)) = Some None \<and>
      rangeDelIterCopy (snd (Close E s)) = None) \<and>
   trace (snd (Close E s)) =
     trace s @ (if iter s \<noteq> None then [EvClosePoint] else []) @
     (if rangeDelIterPtr s \<noteq> None \<and> rangeDelIterCopy s \<noteq> None
      then [EvCloseRangeDel] else []) \<and>
   fst (Close E s) = err (snd (Close E s)) \<and>
   ((err s \<noteq> None \<longrightarrow> iter s = None) \<longrightarrow>
      fst (Close E s) =
        firstError (firstError (err s) (pointCloseError E s)) (rangeDelCloseError E s))"
proof -
  have "fst (Close E s) =
          firstError (firstError (err s) (pointCloseError E s)) (rangeDelCloseError E s)"
    if "err s \<noteq> None \<longrightarrow> iter s = None"
    using that
    by (cases "iter s"; cases "err s")
       (simp_all add: Close_error firstError_def pointCloseError_def)
  then show ?thesis
    using Close_again [of E s] Close_slot [of s E] Close_trace [of E s] Close_fst [of E s]
    by simp
qed

theorem Close_first_error_wins_idempotent_witness:
  "err upperIn_paused = None \<and>
   rangeDelIterPtr upperIn_paused = Some (Some 7) \<and>
   rangeDelIterCopy upperIn_paused = Some 7 \<and>
   Close closeFailEnv (snd (Close closeFailEnv upperIn_paused)) =
     Close closeFailEnv upperIn_paused \<and>
   iter (snd (Close closeFailEnv upperIn_paused)) = None \<and>
   rangeDelIterPtr (snd (Close closeFailEnv upperIn_paused)) = Some None \<and>
   rangeDelIterCopy (snd (Close closeFailEnv upperIn_paused)) = None \<and>
   trace (snd (Close closeFailEnv upperIn_paused)) =
     trace upperIn_paused @ [EvClosePoint, EvCloseRangeDel] \<and>
   fst (Close closeFailEnv upperIn_paused) =
     firstError (firstError (err upperIn_paused) (pointCloseError closeFailEnv upperIn_paused))
       (rangeDelCloseError closeFailEnv upperIn_paused) \<and>
   fst (Close closeFailEnv upperIn_paused) = Some ''point close failed''"
proof -
  have e: "err upperIn_paused = None"
    by code_simp
  have p: "rangeDelIterPtr upperIn_paused = Some (Some 7)"
    by code_simp
  have c: "rangeDelIterCopy upperIn_paused = Some 7"
    by code_simp
  have i: "iter upperIn_paused \<noteq> None"
    by code_simp
  have r: "fst (Close closeFailEnv upperIn_paused) = Some ''point close failed''"
    by code_simp
  note T = Close_first_error_wins_idempotent [of closeFailEnv upperIn_paused]
  have t1: "Close closeFailEnv (snd (Close closeFailEnv upperIn_paused)) =
              Close closeFailEnv upperIn_paused"
    using T by blast
  have t2: "iter (snd (Close closeFailEnv upperIn_paused)) = None"
    using T by blast
  have t3: "rangeDelIterPtr (snd (Close closeFailEnv upperIn_paused)) = Some None \<and>
            rangeDelIterCopy (snd (Close closeFailEnv upperIn_paused)) = None"
    using T p by simp
  have t4: "trace (snd (Close closeFailEnv upperIn_paused)) =
              trace upperIn_paused @ [EvClosePoint, EvCloseRangeDel]"
    using T p c i by simp
  have t5: "fst (Close closeFailEnv upperIn_paused) =
              firstError (firstError (err upperIn_paused)
                            (pointCloseError closeFailEnv upperIn_paused))
                (rangeDelCloseError closeFailEnv upperIn_paused)"
    using T e by blast
  show ?thesis
    using e p c r t1 t2 t3 t4 t5 by blast
qed

section \<open>Direction reversal and the inert states\<close>

text \<open>
  The level \<open>[a, c] | [e, g]\<close> without bounds, exhausted backward: \<^verbatim>\<open>SeekLT(b)\<close> returns
  \<open>a\<close> and \<^verbatim>\<open>Prev\<close> runs off the level.
\<close>

definition plain_level :: "(sstIter, nat) levelIter" where
  "plain_level = mkLevel None None twoFilesContents (\<lambda>f. None) twoFiles"

definition backExhausted :: "(sstIter, nat) levelIter" where
  "backExhausted =
     stateOr plain_level
       (Prev envOn (stateOr plain_level (SeekLT envOn ''b'' SeekLTFlagsNone plain_level)))"

text \<open>
  C10. \<^verbatim>\<open>NextPrefix\<close> has no branch on \<open>exhaustedDir\<close>: whenever the sticky error is set
  or the inner iterator is nil, whatever \<open>exhaustedDir\<close> is, it returns \<^verbatim>\<open>nil\<close> and the
  state is unchanged.
\<close>

theorem NextPrefix_no_reversal:
  "err s \<noteq> None \<or> iter s = None \<Longrightarrow> NextPrefix E succKey s = Some (Inr (None, s))"
  by (simp add: NextPrefix_def)

text \<open>
  On the level exhausted backward \<^verbatim>\<open>NextPrefix\<close> returns \<^verbatim>\<open>nil\<close> and changes nothing,
  where \<^verbatim>\<open>Next\<close> restarts and returns the first key \<open>a\<close>.
\<close>

theorem NextPrefix_no_reversal_witness:
  "iter backExhausted = None \<and> exhaustedDir backExhausted = -1 \<and>
   NextPrefix envOn ''b'' backExhausted = Some (Inr (None, backExhausted)) \<and>
   returnedKey (Next envOn backExhausted) = Some (Inr (Some ''a''))"
proof -
  have i: "iter backExhausted = None"
    by code_simp
  have d: "exhaustedDir backExhausted = -1"
    by code_simp
  have n: "returnedKey (Next envOn backExhausted) = Some (Inr (Some ''a''))"
    by code_simp
  show ?thesis
    using NextPrefix_no_reversal [of backExhausted envOn "''b''"] i d n
    by simp
qed

section \<open>The private copy of the tombstone handle\<close>

lemma trace_maybeTrigger [simp]: "trace (maybeTriggerCombinedIteration file d s) = trace s"
  by (simp add: maybeTriggerCombinedIteration_def split: option.splits dir.splits)

lemma iter_maybeTrigger [simp]: "iter (maybeTriggerCombinedIteration file d s) = iter s"
  by (simp add: maybeTriggerCombinedIteration_def split: option.splits dir.splits)

lemma rangeDelIterPtr_maybeTrigger [simp]:
  "rangeDelIterPtr (maybeTriggerCombinedIteration file d s) = rangeDelIterPtr s"
  by (simp add: maybeTriggerCombinedIteration_def split: option.splits dir.splits)

lemma rangeDelIterCopy_maybeTrigger [simp]:
  "rangeDelIterCopy (maybeTriggerCombinedIteration file d s) = rangeDelIterCopy s"
  by (simp add: maybeTriggerCombinedIteration_def split: option.splits dir.splits)

lemma loadFile_same_file:
  assumes "iterFile t = file" and "err t = None" and "iter t \<noteq> None"
  shows "loadFile E file d t =
    (fileAlreadyLoaded,
     maybeTriggerCombinedIteration file d
       (case rangeDelIterPtr t of
          None \<Rightarrow> t\<lparr>smallestBoundary := None, largestBoundary := None\<rparr>
        | Some c \<Rightarrow> t\<lparr>smallestBoundary := None, largestBoundary := None,
                       rangeDelIterPtr := Some (rangeDelIterCopy t)\<rparr>))"
  using assms by (simp add: loadFile_def Let_def split: option.splits)

text \<open>
  C9. At an upper-bound pause (a boundary is registered in \<open>largestBoundary\<close> and the table's
  upper bound is set) \<^verbatim>\<open>Next\<close> returns \<^verbatim>\<open>nil\<close>, sets \<open>exhaustedDir\<close> to \<open>+1\<close> and nulls
  the slot; \<^verbatim>\<open>Prev\<close> does the same at a lower-bound pause with \<open>-1\<close>. Nulling the slot leaves
  \<open>rangeDelIterCopy\<close> as it is. In every later state \<open>t\<close> that still has this file, this inner
  iterator, the nulled slot and the copy, and no error, \<^verbatim>\<open>loadFile\<close> of the file returns
  \<open>fileAlreadyLoaded\<close>, writes the copy back into the slot, keeps the inner iterator and
  adds nothing to the trace: the table opener is not called and nothing is closed.
\<close>

theorem bounds_pause_keeps_copy:
  "(exhaustedDir s \<noteq> -1 \<and> err s = None \<and> iter s \<noteq> None \<and> largestBoundary s \<noteq> None \<and>
    tableOpts_UpperBound s \<noteq> None \<longrightarrow>
      Next E s = Some (Inr (None, (clearRangeDelSlot s)\<lparr>exhaustedDir := 1\<rparr>))) \<and>
   (exhaustedDir s \<noteq> 1 \<and> err s = None \<and> iter s \<noteq> None \<and> smallestBoundary s \<noteq> None \<and>
    tableOpts_LowerBound s \<noteq> None \<longrightarrow>
      Prev E s = Some (Inr (None, (clearRangeDelSlot s)\<lparr>exhaustedDir := -1\<rparr>))) \<and>
   rangeDelIterCopy (clearRangeDelSlot s) = rangeDelIterCopy s \<and>
   rangeDelIterPtr (clearRangeDelSlot s) = map_option (\<lambda>c. None) (rangeDelIterPtr s) \<and>
   (iterFile t = iterFile s \<and> err t = None \<and> iter t = iter s \<and> iter s \<noteq> None \<and>
    rangeDelIterPtr t = rangeDelIterPtr (clearRangeDelSlot s) \<and>
    rangeDelIterCopy t = rangeDelIterCopy s \<longrightarrow>
      fst (loadFile E (iterFile s) d t) = fileAlreadyLoaded \<and>
      rangeDelIterPtr (snd (loadFile E (iterFile s) d t)) =
        map_option (\<lambda>c. rangeDelIterCopy s) (rangeDelIterPtr s) \<and>
      rangeDelIterCopy (snd (loadFile E (iterFile s) d t)) = rangeDelIterCopy s \<and>
      iter (snd (loadFile E (iterFile s) d t)) = iter s \<and>
      trace (snd (loadFile E (iterFile s) d t)) = trace t)"
proof -
  have n: "Next E s = Some (Inr (None, (clearRangeDelSlot s)\<lparr>exhaustedDir := 1\<rparr>))"
    if "exhaustedDir s \<noteq> -1" "err s = None" "iter s \<noteq> None" "largestBoundary s \<noteq> None"
      "tableOpts_UpperBound s \<noteq> None"
    using that by (auto simp add: Next_def)
  have p: "Prev E s = Some (Inr (None, (clearRangeDelSlot s)\<lparr>exhaustedDir := -1\<rparr>))"
    if "exhaustedDir s \<noteq> 1" "err s = None" "iter s \<noteq> None" "smallestBoundary s \<noteq> None"
      "tableOpts_LowerBound s \<noteq> None"
    using that by (auto simp add: Prev_def)
  have c: "rangeDelIterCopy (clearRangeDelSlot s) = rangeDelIterCopy s"
    "rangeDelIterPtr (clearRangeDelSlot s) = map_option (\<lambda>c. None) (rangeDelIterPtr s)"
    by (simp_all add: clearRangeDelSlot_def split: option.splits)
  have l: "fst (loadFile E (iterFile s) d t) = fileAlreadyLoaded \<and>
      rangeDelIterPtr (snd (loadFile E (iterFile s) d t)) =
        map_option (\<lambda>c. rangeDelIterCopy s) (rangeDelIterPtr s) \<and>
      rangeDelIterCopy (snd (loadFile E (iterFile s) d t)) = rangeDelIterCopy s \<and>
      iter (snd (loadFile E (iterFile s) d t)) = iter s \<and>
      trace (snd (loadFile E (iterFile s) d t)) = trace t"
    if "iterFile t = iterFile s" "err t = None" "iter t = iter s" "iter s \<noteq> None"
      "rangeDelIterPtr t = rangeDelIterPtr (clearRangeDelSlot s)"
      "rangeDelIterCopy t = rangeDelIterCopy s"
  proof -
    have "iter t \<noteq> None"
      using that by simp
    from loadFile_same_file [OF that(1) that(2) this, of E d] that c show ?thesis
      by (cases "rangeDelIterPtr s") simp_all
  qed
  from n p c l show ?thesis
    by blast
qed

theorem bounds_pause_keeps_copy_witness:
  "exhaustedDir upperIn_paused \<noteq> -1 \<and> err upperIn_paused = None \<and>
   iter upperIn_paused \<noteq> None \<and> largestBoundary upperIn_paused \<noteq> None \<and>
   tableOpts_UpperBound upperIn_paused \<noteq> None \<and>
   rangeDelIterPtr upperIn_paused = Some (Some 7) \<and>
   rangeDelIterCopy upperIn_paused = Some 7 \<and>
   Next envOn upperIn_paused =
     Some (Inr (None, (clearRangeDelSlot upperIn_paused)\<lparr>exhaustedDir := 1\<rparr>)) \<and>
   rangeDelIterPtr (clearRangeDelSlot upperIn_paused) = Some None \<and>
   rangeDelIterCopy (clearRangeDelSlot upperIn_paused) = Some 7 \<and>
   fst (loadFile envOn (iterFile upperIn_paused) Fwd
          ((clearRangeDelSlot upperIn_paused)\<lparr>exhaustedDir := 1\<rparr>)) = fileAlreadyLoaded \<and>
   rangeDelIterPtr (snd (loadFile envOn (iterFile upperIn_paused) Fwd
          ((clearRangeDelSlot upperIn_paused)\<lparr>exhaustedDir := 1\<rparr>))) = Some (Some 7) \<and>
   trace (snd (loadFile envOn (iterFile upperIn_paused) Fwd
          ((clearRangeDelSlot upperIn_paused)\<lparr>exhaustedDir := 1\<rparr>))) = trace upperIn_paused \<and>
   exhaustedDir lowerIn_paused \<noteq> 1 \<and> err lowerIn_paused = None \<and>
   iter lowerIn_paused \<noteq> None \<and> smallestBoundary lowerIn_paused \<noteq> None \<and>
   tableOpts_LowerBound lowerIn_paused \<noteq> None \<and>
   Prev envOn lowerIn_paused =
     Some (Inr (None, (clearRangeDelSlot lowerIn_paused)\<lparr>exhaustedDir := -1\<rparr>))"
proof -
  have u: "exhaustedDir upperIn_paused \<noteq> -1" "err upperIn_paused = None"
    "iter upperIn_paused \<noteq> None" "largestBoundary upperIn_paused \<noteq> None"
    "tableOpts_UpperBound upperIn_paused \<noteq> None"
    "rangeDelIterPtr upperIn_paused = Some (Some 7)"
    "rangeDelIterCopy upperIn_paused = Some 7"
    by code_simp+
  have w: "exhaustedDir lowerIn_paused \<noteq> 1" "err lowerIn_paused = None"
    "iter lowerIn_paused \<noteq> None" "smallestBoundary lowerIn_paused \<noteq> None"
    "tableOpts_LowerBound lowerIn_paused \<noteq> None"
    by code_simp+
  note U = bounds_pause_keeps_copy [of upperIn_paused envOn
      "(clearRangeDelSlot upperIn_paused)\<lparr>exhaustedDir := 1\<rparr>" Fwd]
  note L = bounds_pause_keeps_copy [of lowerIn_paused envOn lowerIn_paused Bwd]
  have u1: "Next envOn upperIn_paused =
     Some (Inr (None, (clearRangeDelSlot upperIn_paused)\<lparr>exhaustedDir := 1\<rparr>))"
    using U u by blast
  have u2: "rangeDelIterPtr (clearRangeDelSlot upperIn_paused) = Some None"
    "rangeDelIterCopy (clearRangeDelSlot upperIn_paused) = Some 7"
    using U u by simp_all
  have u3: "fst (loadFile envOn (iterFile upperIn_paused) Fwd
          ((clearRangeDelSlot upperIn_paused)\<lparr>exhaustedDir := 1\<rparr>)) = fileAlreadyLoaded \<and>
   rangeDelIterPtr (snd (loadFile envOn (iterFile upperIn_paused) Fwd
          ((clearRangeDelSlot upperIn_paused)\<lparr>exhaustedDir := 1\<rparr>))) = Some (Some 7) \<and>
   trace (snd (loadFile envOn (iterFile upperIn_paused) Fwd
          ((clearRangeDelSlot upperIn_paused)\<lparr>exhaustedDir := 1\<rparr>))) = trace upperIn_paused"
    using U u by (simp add: clearRangeDelSlot_def)
  have l1: "Prev envOn lowerIn_paused =
     Some (Inr (None, (clearRangeDelSlot lowerIn_paused)\<lparr>exhaustedDir := -1\<rparr>))"
    using L w by blast
  show ?thesis
    using u w u1 u2 u3 l1 by blast
qed

section \<open>The contract of synthetic boundaries\<close>

text \<open>
  What the contract asks of a result: it is not the assertion failure of
  \<^verbatim>\<open>makeSyntheticBoundary\<close>, and when it is the synthetic boundary, the slot is registered and
  holds a tombstone iterator in the state returned with it.
\<close>

definition boundary_contract :: "('it, 'rd) result option \<Rightarrow> bool" where
  "boundary_contract r =
     (case r of
        Some (Inl p) \<Rightarrow> p \<noteq> AssertSyntheticBoundary
      | Some (Inr (Some SynthKV, s')) \<Rightarrow> emitSyntheticBoundaries s'
      | _ \<Rightarrow> True)"

text \<open>A level without bounds whose files have tombstones (handle \<open>7\<close>), slot registered.\<close>

definition tombstone_level :: "(sstIter, nat) levelIter" where
  "tombstone_level =
     initRangeDel None (mkLevel None None twoFilesContents (\<lambda>f. Some 7) twoFiles)"

lemma makeSyntheticBoundary_assert_iff:
  "makeSyntheticBoundary E k s = Inl p \<longleftrightarrow>
     p = AssertSyntheticBoundary \<and> invariants_Enabled E \<and> \<not> emitSyntheticBoundaries s"
  by (auto simp: makeSyntheticBoundary_def)

lemma boundary_contract_simps [simp]:
  "boundary_contract None"
  "boundary_contract (Some (Inl p)) = (p \<noteq> AssertSyntheticBoundary)"
  "boundary_contract (Some (Inr (None, s)))"
  "boundary_contract (Some (Inr (Some (IterKV kv), s)))"
  "boundary_contract (Some (Inr (Some SynthKV, s))) = emitSyntheticBoundaries s"
  by (simp_all add: boundary_contract_def)

lemma pause_fwd_contract: "boundary_contract (skipEmptyFileForward_pause E s)"
  by (auto simp: skipEmptyFileForward_pause_def makeSyntheticBoundary_def
      emitSyntheticBoundaries_def Let_def split: option.splits)

lemma pause_bwd_contract: "boundary_contract (skipEmptyFileBackward_pause E s)"
  by (auto simp: skipEmptyFileBackward_pause_def makeSyntheticBoundary_def
      emitSyntheticBoundaries_def Let_def split: option.splits)

lemma skip_fwd_contract: "boundary_contract (skipEmptyFileForward E s)"
proof (cases "skipEmptyFileForward E s")
  case None
  then show ?thesis by simp
next
  case (Some r)
  have "boundary_contract (Some r)"
  proof (rule skipEmptyFileForward.raw_induct
      [where P = "\<lambda>E s r. boundary_contract (Some r)", OF _ Some], goal_cases)
    case (1 skip E s r)
    then show ?case
      using pause_fwd_contract [of E s]
      by (auto simp: skipEmptyFileForward_body_def
          split: pass.splits option.splits if_splits prod.splits)
  qed
  with Some show ?thesis by simp
qed

lemma skip_bwd_contract: "boundary_contract (skipEmptyFileBackward E s)"
proof (cases "skipEmptyFileBackward E s")
  case None
  then show ?thesis by simp
next
  case (Some r)
  have "boundary_contract (Some r)"
  proof (rule skipEmptyFileBackward.raw_induct
      [where P = "\<lambda>E s r. boundary_contract (Some r)", OF _ Some], goal_cases)
    case (1 skip E s r)
    then show ?case
      using pause_bwd_contract [of E s]
      by (auto simp: skipEmptyFileBackward_body_def
          split: pass.splits option.splits if_splits prod.splits)
  qed
  with Some show ?thesis by simp
qed

lemma emit_fields:
  "rangeDelIterPtr s' = rangeDelIterPtr s \<Longrightarrow>
   emitSyntheticBoundaries s' = emitSyntheticBoundaries s"
  by (simp add: emitSyntheticBoundaries_def)

lemma verify_contract:
  "boundary_contract (Some (Inr (kv, s))) \<Longrightarrow> boundary_contract (Some (verify E kv s))"
  by (cases kv) (auto simp: verify_def)

lemma verify_result_contract:
  "boundary_contract r \<Longrightarrow> boundary_contract (verify_result E r)"
  by (auto simp: verify_result_def verify_contract split: option.splits sum.splits prod.splits)

lemma forward_tail_contract: "boundary_contract (forward_tail E r s)"
  by (auto simp: forward_tail_def verify_def skip_fwd_contract intro!: verify_result_contract
      split: prod.splits option.splits)

lemma backward_tail_contract: "boundary_contract (backward_tail E r s)"
  by (auto simp: backward_tail_def verify_def skip_bwd_contract intro!: verify_result_contract
      split: prod.splits option.splits)

lemma SeekGE_contract: "boundary_contract (SeekGE E k flags s)"
  by (auto simp: SeekGE_def Let_def forward_tail_contract split: prod.splits option.splits)

lemma First_contract: "boundary_contract (First E s)"
  by (auto simp: First_def Let_def forward_tail_contract split: prod.splits option.splits)

lemma SeekLT_contract: "boundary_contract (SeekLT E k flags s)"
  by (auto simp: SeekLT_def Let_def backward_tail_contract split: prod.splits option.splits)

lemma Last_contract: "boundary_contract (Last E s)"
  by (auto simp: Last_def Let_def backward_tail_contract split: prod.splits option.splits)

lemma SeekPrefixGE_miss_contract: "boundary_contract (SeekPrefixGE_miss E prefix s)"
  by (auto simp: SeekPrefixGE_miss_def Let_def verify_def makeSyntheticBoundary_def
      emitSyntheticBoundaries_def skip_fwd_contract
      intro!: verify_result_contract verify_contract
      split: prod.splits option.splits sum.splits)

lemma SeekPrefixGE_contract: "boundary_contract (SeekPrefixGE E prefix k flags s)"
  by (auto simp: SeekPrefixGE_def Let_def verify_def SeekPrefixGE_miss_contract
      split: prod.splits option.splits)

lemma Next_contract: "boundary_contract (Next E s)"
  by (auto simp: Next_def Let_def forward_tail_contract SeekGE_contract First_contract
      split: prod.splits option.splits)

lemma Prev_contract: "boundary_contract (Prev E s)"
  by (auto simp: Prev_def Let_def backward_tail_contract SeekLT_contract Last_contract
      split: prod.splits option.splits)

lemma NextPrefix_seek_contract: "boundary_contract (NextPrefix_seek E k s)"
  by (auto simp: NextPrefix_seek_def Let_def forward_tail_contract split: prod.splits option.splits)

lemma NextPrefix_contract: "boundary_contract (NextPrefix E k s)"
  by (auto simp: NextPrefix_def Let_def NextPrefix_seek_contract verify_def
      split: prod.splits option.splits)

text \<open>
  C2. \<^verbatim>\<open>makeSyntheticBoundary\<close> fails its assertion exactly when invariants are enabled and
  \<open>emitSyntheticBoundaries\<close> is false, that is unless the slot pointer is non-nil and the
  slot holds a tombstone iterator. No operation of the level iterator ever returns that
  assertion failure, in any state and any build, and an operation that returns the
  synthetic boundary returns it with a state whose slot is registered and holds a
  tombstone iterator.
\<close>

theorem synthetic_boundary_contract:
  "boundary_contract (SeekGE E k flags s) \<and>
   boundary_contract (SeekPrefixGE E prefix k flags s) \<and>
   boundary_contract (SeekLT E k ltflags s) \<and>
   boundary_contract (First E s) \<and>
   boundary_contract (Last E s) \<and>
   boundary_contract (Next E s) \<and>
   boundary_contract (NextPrefix E k s) \<and>
   boundary_contract (Prev E s) \<and>
   (makeSyntheticBoundary E k s = Inl AssertSyntheticBoundary \<longleftrightarrow>
      invariants_Enabled E \<and> \<not> emitSyntheticBoundaries s) \<and>
   (emitSyntheticBoundaries s \<longleftrightarrow>
      rangeDelIterPtr s \<noteq> None \<and> rangeDelIterPtr s \<noteq> Some None)"
proof -
  have "emitSyntheticBoundaries s \<longleftrightarrow>
          rangeDelIterPtr s \<noteq> None \<and> rangeDelIterPtr s \<noteq> Some None"
    by (auto simp: emitSyntheticBoundaries_def split: option.splits)
  then show ?thesis
    using SeekGE_contract [of E k flags s] SeekPrefixGE_contract [of E prefix k flags s]
      SeekLT_contract [of E k ltflags s] First_contract [of E s] Last_contract [of E s]
      Next_contract [of E s] NextPrefix_contract [of E k s] Prev_contract [of E s]
      makeSyntheticBoundary_assert_iff [of E k s AssertSyntheticBoundary]
    by blast
qed

text \<open>
  On the level with tombstones \<^verbatim>\<open>SeekPrefixGE(b, b)\<close> finds no key with the prefix in the
  file \<open>[a, c]\<close> and returns the synthetic boundary at \<open>c\<close>; the slot holds the handle.
\<close>

theorem synthetic_boundary_contract_witness:
  "boundary_contract (SeekPrefixGE envOn ''b'' ''b'' SeekGEFlagsNone tombstone_level) \<and>
   boundary_contract (SeekGE envOn ''b'' SeekGEFlagsNone tombstone_level) \<and>
   boundary_contract (Next envOn tombstone_level) \<and>
   boundary_contract (Prev envOn tombstone_level) \<and>
   returnedKey (SeekPrefixGE envOn ''b'' ''b'' SeekGEFlagsNone tombstone_level) =
     Some (Inr (Some ''c'')) \<and>
   largestBoundary (stateOr tombstone_level
      (SeekPrefixGE envOn ''b'' ''b'' SeekGEFlagsNone tombstone_level)) = Some SynthKV \<and>
   rangeDelIterPtr (stateOr tombstone_level
      (SeekPrefixGE envOn ''b'' ''b'' SeekGEFlagsNone tombstone_level)) = Some (Some 7)"
proof -
  have e: "returnedKey (SeekPrefixGE envOn ''b'' ''b'' SeekGEFlagsNone tombstone_level) =
     Some (Inr (Some ''c''))"
    "largestBoundary (stateOr tombstone_level
      (SeekPrefixGE envOn ''b'' ''b'' SeekGEFlagsNone tombstone_level)) = Some SynthKV"
    "rangeDelIterPtr (stateOr tombstone_level
      (SeekPrefixGE envOn ''b'' ''b'' SeekGEFlagsNone tombstone_level)) = Some (Some 7)"
    by code_simp+
  show ?thesis
    using synthetic_boundary_contract
      [of envOn "''b''" SeekGEFlagsNone tombstone_level "''b''" SeekLTFlagsNone] e
    by blast
qed

section \<open>The flags passed to findFileGE\<close>

text \<open>The invocations of \<^verbatim>\<open>findFileGE\<close> recorded in the trace, oldest first.\<close>

fun isFindFileGE :: "event \<Rightarrow> bool" where
  "isFindFileGE (EvFindFileGE k flags) = True"
| "isFindFileGE _ = False"

definition findFileGE_calls :: "('it, 'rd) levelIter \<Rightarrow> event list" where
  "findFileGE_calls s = filter isFindFileGE (trace s)"

text \<open>
  An operation that returned a state returned it with these invocations of \<^verbatim>\<open>findFileGE\<close>
  in the trace.
\<close>

definition calls_are :: "('it, 'rd) result option \<Rightarrow> event list \<Rightarrow> bool" where
  "calls_are r evs =
     (case r of Some (Inr (kv, s')) \<Rightarrow> findFileGE_calls s' = evs | _ \<Rightarrow> True)"

text \<open>The flags with only \<open>try_seek_using_next\<close> set.\<close>

definition trySeekUsingNextOnly :: SeekGEFlags where
  "trySeekUsingNextOnly = EnableTrySeekUsingNext SeekGEFlagsNone"

text \<open>The level \<open>[a, c] | [e, g]\<close> without bounds, positioned on \<open>a\<close> by \<^verbatim>\<open>First\<close>.\<close>

definition plain_atFirst :: "(sstIter, nat) levelIter" where
  "plain_atFirst = stateOr plain_level (First envOn plain_level)"

lemma calls_are_simps [simp]:
  "calls_are None evs"
  "calls_are (Some (Inl p)) evs"
  "calls_are (Some (Inr (kv, s))) evs = (findFileGE_calls s = evs)"
  by (simp_all add: calls_are_def)

lemma trace_files [simp]:
  "trace (snd (files_Next s)) = trace s @ [EvFilesNext]"
  "trace (snd (files_Prev s)) = trace s @ [EvFilesPrev]"
  "trace (snd (files_First s)) = trace s @ [EvFilesFirst]"
  "trace (snd (files_Last s)) = trace s @ [EvFilesLast]"
  "trace (snd (files_SeekGE k s)) = trace s @ [EvFilesSeekGE k]"
  "trace (snd (files_SeekLT k s)) = trace s @ [EvFilesSeekLT k]"
  by (simp_all add: files_Next_def files_Prev_def files_First_def
      files_Last_def files_SeekGE_def files_SeekLT_def split: prod.splits)

lemma trace_initTableBounds [simp]: "trace (snd (initTableBounds f s)) = trace s"
  by (simp add: initTableBounds_def Let_def split: option.splits)

lemma calls_fields [simp]:
  "findFileGE_calls (s\<lparr>iterFile := a\<rparr>) = findFileGE_calls s"
  "findFileGE_calls (s\<lparr>iter := b\<rparr>) = findFileGE_calls s"
  "findFileGE_calls (s\<lparr>exhaustedDir := c\<rparr>) = findFileGE_calls s"
  "findFileGE_calls (s\<lparr>err := d\<rparr>) = findFileGE_calls s"
  "findFileGE_calls (s\<lparr>smallestBoundary := e\<rparr>) = findFileGE_calls s"
  "findFileGE_calls (s\<lparr>largestBoundary := e\<rparr>) = findFileGE_calls s"
  "findFileGE_calls (s\<lparr>syntheticBoundary := g\<rparr>) = findFileGE_calls s"
  "findFileGE_calls (s\<lparr>rangeDelIterPtr := h\<rparr>) = findFileGE_calls s"
  "findFileGE_calls (s\<lparr>rangeDelIterCopy := i\<rparr>) = findFileGE_calls s"
  by (simp_all add: findFileGE_calls_def)

lemma calls_basic [simp]:
  "findFileGE_calls (snd (files_Next s)) = findFileGE_calls s"
  "findFileGE_calls (snd (files_Prev s)) = findFileGE_calls s"
  "findFileGE_calls (snd (files_First s)) = findFileGE_calls s"
  "findFileGE_calls (snd (files_Last s)) = findFileGE_calls s"
  "findFileGE_calls (snd (files_SeekGE k s)) = findFileGE_calls s"
  "findFileGE_calls (snd (files_SeekLT k s)) = findFileGE_calls s"
  "findFileGE_calls (maybeTriggerCombinedIteration f d s) = findFileGE_calls s"
  "findFileGE_calls (snd (initTableBounds g s)) = findFileGE_calls s"
  "findFileGE_calls (snd (Close E s)) = findFileGE_calls s"
  by (simp_all add: findFileGE_calls_def Close_trace)

lemma calls_findFileGE_body:
  "findFileGE_body k m nis nus s = Continue (m', nis', nus', s') \<Longrightarrow>
   findFileGE_calls s' = findFileGE_calls s"
  "findFileGE_body k m nis nus s = Leave s1 \<Longrightarrow> findFileGE_calls s1 = findFileGE_calls s"
  by (auto simp: findFileGE_body_def Let_def split: if_splits)

lemma calls_findFileGE_loop:
  "findFileGE_calls (snd (snd (snd (findFileGE_loop k m nis nus s)))) = findFileGE_calls s"
  by (rule findFileGE_loop_rule
      [where I = "\<lambda>k m nis nus s'. findFileGE_calls s' = findFileGE_calls s"
         and Q = "\<lambda>k r. findFileGE_calls (snd (snd (snd r))) = findFileGE_calls s"])
     (auto dest: calls_findFileGE_body)

lemma calls_findFileGE:
  "findFileGE_calls (snd (findFileGE k flags s)) = findFileGE_calls s @ [EvFindFileGE k flags]"
proof -
  define s0 where "s0 = s\<lparr>trace := trace s @ [EvFindFileGE k flags]\<rparr>"
  have s0: "findFileGE_calls s0 = findFileGE_calls s @ [EvFindFileGE k flags]"
    by (simp add: findFileGE_calls_def s0_def)
  have a: "findFileGE_calls (snd (snd (snd (findFileGE_loop k (iterFile s0) nis nus s0)))) =
        findFileGE_calls s0" for nis nus
    by (rule calls_findFileGE_loop)
  have b: "findFileGE_calls (snd (snd (snd (findFileGE_loop k (fst (files_SeekGE k s0)) nis nus
              (snd (files_SeekGE k s0)))))) = findFileGE_calls s0" for nis nus
    by (simp add: calls_findFileGE_loop)
  show ?thesis
    using a b s0
    by (simp add: findFileGE_def Let_def s0_def [symmetric] split: prod.splits if_splits)
       (auto simp: prod_eq_iff)
qed

lemma calls_findFileLT_body:
  "findFileLT_body k m pis s = Continue (m', s') \<Longrightarrow> findFileGE_calls s' = findFileGE_calls s"
  "findFileLT_body k m pis s = Leave s1 \<Longrightarrow> findFileGE_calls s1 = findFileGE_calls s"
  by (auto simp: findFileLT_body_def Let_def prod_eq_iff split: if_splits)

lemma calls_findFileLT_loop:
  "findFileGE_calls (snd (findFileLT_loop k m pis s)) = findFileGE_calls s"
  by (rule findFileLT_loop_rule
      [where I = "\<lambda>k pis m s'. findFileGE_calls s' = findFileGE_calls s"
         and Q = "\<lambda>k pis r. findFileGE_calls (snd r) = findFileGE_calls s"])
     (auto dest: calls_findFileLT_body)

lemma calls_findFileLT:
  "findFileGE_calls (snd (findFileLT k flags s)) = findFileGE_calls s"
proof -
  have a: "findFileGE_calls (snd (findFileLT_loop k (iterFile s) pis s)) = findFileGE_calls s"
    for pis
    by (rule calls_findFileLT_loop)
  have b: "findFileGE_calls (snd (findFileLT_loop k (fst (files_SeekLT k s)) pis
              (snd (files_SeekLT k s)))) = findFileGE_calls s" for pis
    by (simp add: calls_findFileLT_loop)
  show ?thesis
    using a b
    by (simp add: findFileLT_def Let_def split: prod.splits if_splits)
       (auto simp: prod_eq_iff)
qed

lemma calls_loadFile_body:
  "loadFile_body f d s = Continue (m', s') \<Longrightarrow> findFileGE_calls s' = findFileGE_calls s"
  "loadFile_body f d s = Leave (ind, s1) \<Longrightarrow> findFileGE_calls s1 = findFileGE_calls s"
  by (auto simp: loadFile_body_def Let_def prod_eq_iff findFileGE_calls_def
      split: if_splits dir.splits prod.splits sum.splits option.splits)

lemma calls_loadFile_loop:
  "findFileGE_calls (snd (loadFile_loop m d s)) = findFileGE_calls s"
  by (rule loadFile_loop_rule
      [where I = "\<lambda>d m s'. findFileGE_calls s' = findFileGE_calls s"
         and Q = "\<lambda>d r. findFileGE_calls (snd r) = findFileGE_calls s"])
     (auto dest: calls_loadFile_body)

lemma calls_loadFile: "findFileGE_calls (snd (loadFile E m d s)) = findFileGE_calls s"
proof -
  define s0 where "s0 = s\<lparr>smallestBoundary := None, largestBoundary := None\<rparr>"
  have a: "findFileGE_calls s0 = findFileGE_calls s"
    by (simp add: s0_def)
  have b: "findFileGE_calls (case rangeDelIterPtr s0 of None \<Rightarrow> s0
            | Some c \<Rightarrow> s0\<lparr>rangeDelIterPtr := Some (rangeDelIterCopy s0)\<rparr>) = findFileGE_calls s"
    using a by (simp split: option.splits)
  have c: "findFileGE_calls (snd (Close E s0)) = findFileGE_calls s"
    using a by simp
  have d: "findFileGE_calls (snd (loadFile_loop m d (snd (Close E s0)))) = findFileGE_calls s"
    using c by (simp add: calls_loadFile_loop)
  show ?thesis
    using a b c d
    by (simp add: loadFile_def Let_def s0_def [symmetric] split: prod.splits)
       (auto simp: prod_eq_iff)
qed


lemma loadFile_calls:
  "loadFile E m d s = (ind, s') \<Longrightarrow> findFileGE_calls s' = findFileGE_calls s"
  using calls_loadFile [of E m d s] by simp

lemma findFileGE_calls_eq:
  "findFileGE k flags s = (m, s') \<Longrightarrow>
   findFileGE_calls s' = findFileGE_calls s @ [EvFindFileGE k flags]"
  using calls_findFileGE [of k flags s] by simp

lemma findFileLT_calls_eq:
  "findFileLT k flags s = (m, s') \<Longrightarrow> findFileGE_calls s' = findFileGE_calls s"
  using calls_findFileLT [of k flags s] by simp

lemma calls_pause_fwd: "calls_are (skipEmptyFileForward_pause E s) (findFileGE_calls s)"
  by (auto simp: skipEmptyFileForward_pause_def makeSyntheticBoundary_def Let_def
      findFileGE_calls_def split: option.splits)

lemma calls_pause_bwd: "calls_are (skipEmptyFileBackward_pause E s) (findFileGE_calls s)"
  by (auto simp: skipEmptyFileBackward_pause_def makeSyntheticBoundary_def Let_def
      findFileGE_calls_def split: option.splits)

lemma calls_skip_fwd_body:
  "skipEmptyFileForward_body E s = Continue s' \<Longrightarrow> findFileGE_calls s' = findFileGE_calls s"
  "skipEmptyFileForward_body E s = Leave r \<Longrightarrow> calls_are (Some r) (findFileGE_calls s)"
  using calls_pause_fwd [of E s]
  by (auto simp: skipEmptyFileForward_body_def
      split: option.splits if_splits prod.splits dest!: loadFile_calls)

lemma calls_skip_bwd_body:
  "skipEmptyFileBackward_body E s = Continue s' \<Longrightarrow> findFileGE_calls s' = findFileGE_calls s"
  "skipEmptyFileBackward_body E s = Leave r \<Longrightarrow> calls_are (Some r) (findFileGE_calls s)"
  using calls_pause_bwd [of E s]
  by (auto simp: skipEmptyFileBackward_body_def
      split: option.splits if_splits prod.splits dest!: loadFile_calls)

lemma calls_skip_fwd: "calls_are (skipEmptyFileForward E s) (findFileGE_calls s)"
proof (cases "skipEmptyFileForward E s")
  case None
  then show ?thesis by simp
next
  case (Some r)
  have "calls_are (Some r) (findFileGE_calls s)"
    by (rule skipEmptyFileForward_rule
        [OF Some, where I = "\<lambda>s'. findFileGE_calls s' = findFileGE_calls s"])
       (auto dest: calls_skip_fwd_body)
  with Some show ?thesis by simp
qed

lemma calls_skip_bwd: "calls_are (skipEmptyFileBackward E s) (findFileGE_calls s)"
proof (cases "skipEmptyFileBackward E s")
  case None
  then show ?thesis by simp
next
  case (Some r)
  have "calls_are (Some r) (findFileGE_calls s)"
    by (rule skipEmptyFileBackward_rule
        [OF Some, where I = "\<lambda>s'. findFileGE_calls s' = findFileGE_calls s"])
       (auto dest: calls_skip_bwd_body)
  with Some show ?thesis by simp
qed

lemma calls_verify: "calls_are (Some (verify E kv s)) (findFileGE_calls s)"
  by (simp add: verify_def split: option.splits)

lemma calls_verify_result:
  "calls_are r evs \<Longrightarrow> calls_are (verify_result E r) evs"
  using calls_verify
  by (fastforce simp: verify_result_def split: option.splits sum.splits prod.splits)

lemma calls_forward_tail: "calls_are (forward_tail E r s) (findFileGE_calls s)"
  using calls_verify [of E _ "s\<lparr>iter := _\<rparr>"] calls_skip_fwd [of E "s\<lparr>iter := _\<rparr>"]
  by (auto simp: forward_tail_def split: prod.splits option.splits intro!: calls_verify_result)

lemma calls_backward_tail: "calls_are (backward_tail E r s) (findFileGE_calls s)"
  using calls_verify [of E _ "s\<lparr>iter := _\<rparr>"] calls_skip_bwd [of E "s\<lparr>iter := _\<rparr>"]
  by (auto simp: backward_tail_def split: prod.splits option.splits intro!: calls_verify_result)

lemma calls_are_cong: "calls_are r evs \<Longrightarrow> evs = evs' \<Longrightarrow> calls_are r evs'"
  by simp

lemma calls_SeekGE:
  "calls_are (SeekGE E k flags s) (findFileGE_calls s @ [EvFindFileGE k flags])"
proof -
  define s0 where "s0 = s\<lparr>err := None, exhaustedDir := 0\<rparr>"
  obtain m s1 where f: "findFileGE k flags s0 = (m, s1)"
    by (cases "findFileGE k flags s0")
  obtain ind s2 where l: "loadFile E m Fwd s1 = (ind, s2)"
    by (cases "loadFile E m Fwd s1")
  have c: "findFileGE_calls s2 = findFileGE_calls s @ [EvFindFileGE k flags]"
    using findFileGE_calls_eq [OF f] loadFile_calls [OF l] by (simp add: s0_def)
  show ?thesis
    using c calls_forward_tail [of E _ s2]
    by (auto simp: SeekGE_def Let_def s0_def [symmetric] f l split: option.splits)
qed

lemma calls_First: "calls_are (First E s) (findFileGE_calls s)"
proof -
  define s0 where "s0 = s\<lparr>err := None, exhaustedDir := 0\<rparr>"
  obtain m s1 where f: "files_First s0 = (m, s1)"
    by (cases "files_First s0")
  obtain ind s2 where l: "loadFile E m Fwd s1 = (ind, s2)"
    by (cases "loadFile E m Fwd s1")
  have "findFileGE_calls s1 = findFileGE_calls s"
    using f by (auto simp: files_First_def findFileGE_calls_def s0_def split: prod.splits)
  then have c: "findFileGE_calls s2 = findFileGE_calls s"
    using loadFile_calls [OF l] by simp
  show ?thesis
    using c calls_forward_tail [of E _ s2]
    by (auto simp: First_def Let_def s0_def [symmetric] f l split: option.splits)
qed

lemma calls_SeekLT: "calls_are (SeekLT E k flags s) (findFileGE_calls s)"
proof -
  define s0 where "s0 = s\<lparr>err := None, exhaustedDir := 0\<rparr>"
  obtain m s1 where f: "findFileLT k flags s0 = (m, s1)"
    by (cases "findFileLT k flags s0")
  obtain ind s2 where l: "loadFile E m Bwd s1 = (ind, s2)"
    by (cases "loadFile E m Bwd s1")
  have c: "findFileGE_calls s2 = findFileGE_calls s"
    using findFileLT_calls_eq [OF f] loadFile_calls [OF l] by (simp add: s0_def)
  show ?thesis
    using c calls_backward_tail [of E _ s2]
    by (auto simp: SeekLT_def Let_def s0_def [symmetric] f l split: option.splits)
qed

lemma calls_Last: "calls_are (Last E s) (findFileGE_calls s)"
proof -
  define s0 where "s0 = s\<lparr>err := None, exhaustedDir := 0\<rparr>"
  obtain m s1 where f: "files_Last s0 = (m, s1)"
    by (cases "files_Last s0")
  obtain ind s2 where l: "loadFile E m Bwd s1 = (ind, s2)"
    by (cases "loadFile E m Bwd s1")
  have "findFileGE_calls s1 = findFileGE_calls s"
    using f by (auto simp: files_Last_def findFileGE_calls_def s0_def split: prod.splits)
  then have c: "findFileGE_calls s2 = findFileGE_calls s"
    using loadFile_calls [OF l] by simp
  show ?thesis
    using c calls_backward_tail [of E _ s2]
    by (auto simp: Last_def Let_def s0_def [symmetric] f l split: option.splits)
qed


lemma calls_SeekPrefixGE_miss:
  "calls_are (SeekPrefixGE_miss E prefix s) (findFileGE_calls s)"
proof -
  have v: "calls_are (Some (verify E kv t)) (findFileGE_calls s)"
    if "findFileGE_calls t = findFileGE_calls s" for kv t
    using that calls_verify [of E kv t] by simp
  have sk: "calls_are (verify_result E (skipEmptyFileForward E s)) (findFileGE_calls s)"
    using calls_skip_fwd [of E s] by (auto intro!: calls_verify_result)
  show ?thesis
    by (auto simp: SeekPrefixGE_miss_def Let_def makeSyntheticBoundary_def sk
        split: option.splits prod.splits sum.splits intro!: v)
qed

lemma calls_SeekPrefixGE:
  "calls_are (SeekPrefixGE E prefix k flags s) (findFileGE_calls s @ [EvFindFileGE k flags])"
proof -
  define s0 where "s0 = s\<lparr>err := None, exhaustedDir := 0\<rparr>"
  obtain m s1 where f: "findFileGE k flags s0 = (m, s1)"
    by (cases "findFileGE k flags s0")
  obtain ind s2 where l: "loadFile E m Fwd s1 = (ind, s2)"
    by (cases "loadFile E m Fwd s1")
  have c: "findFileGE_calls s2 = findFileGE_calls s @ [EvFindFileGE k flags]"
    using findFileGE_calls_eq [OF f] loadFile_calls [OF l] by (simp add: s0_def)
  have v: "calls_are (Some (verify E kv (s2\<lparr>iter := x\<rparr>)))
             (findFileGE_calls s @ [EvFindFileGE k flags])" for kv x
    using c calls_verify [of E kv "s2\<lparr>iter := x\<rparr>"] by simp
  have ms: "calls_are (SeekPrefixGE_miss E prefix (s2\<lparr>iter := x\<rparr>))
             (findFileGE_calls s @ [EvFindFileGE k flags])" for x
    using c calls_SeekPrefixGE_miss [of E prefix "s2\<lparr>iter := x\<rparr>"] by simp
  show ?thesis
    using c
    by (auto simp: SeekPrefixGE_def Let_def s0_def [symmetric] f l v ms
        split: option.splits prod.splits)
qed

lemma calls_Next:
  "calls_are (Next E s) (findFileGE_calls s) \<or>
   (exhaustedDir s = -1 \<and>
    (case lower s of None \<Rightarrow> False
     | Some lo \<Rightarrow> calls_are (Next E s) (findFileGE_calls s @ [EvFindFileGE lo SeekGEFlagsNone])))"
proof -
  obtain ind s2 where l: "loadFile E (fst (files_Next s)) Fwd (snd (files_Next s)) = (ind, s2)"
    by (cases "loadFile E (fst (files_Next s)) Fwd (snd (files_Next s))")
  have c: "findFileGE_calls s2 = findFileGE_calls s"
    using loadFile_calls [OF l] by simp
  show ?thesis
    using calls_SeekGE [of E _ SeekGEFlagsNone s] calls_First [of E s] c
      calls_forward_tail [of E _ s2] calls_forward_tail [of E _ "s\<lparr>smallestBoundary := None\<rparr>"]
    by (auto simp: Next_def Let_def l clearRangeDelSlot_def findFileGE_calls_def
        split: option.splits)
qed

lemma calls_Prev: "calls_are (Prev E s) (findFileGE_calls s)"
proof -
  obtain ind s2 where l: "loadFile E (fst (files_Prev s)) Bwd (snd (files_Prev s)) = (ind, s2)"
    by (cases "loadFile E (fst (files_Prev s)) Bwd (snd (files_Prev s))")
  have c: "findFileGE_calls s2 = findFileGE_calls s"
    using loadFile_calls [OF l] by simp
  show ?thesis
    using calls_SeekLT [of E _ SeekLTFlagsNone s] calls_Last [of E s] c
      calls_backward_tail [of E _ s2] calls_backward_tail [of E _ "s\<lparr>largestBoundary := None\<rparr>"]
    by (auto simp: Prev_def Let_def l clearRangeDelSlot_def findFileGE_calls_def
        split: option.splits)
qed

lemma calls_NextPrefix_seek:
  "calls_are (NextPrefix_seek E succKey s)
     (findFileGE_calls s @ [EvFindFileGE succKey metadataSeekFlags])"
proof -
  obtain m s1 where f: "findFileGE succKey metadataSeekFlags s = (m, s1)"
    by (cases "findFileGE succKey metadataSeekFlags s")
  obtain ind s2 where l: "loadFile E m Fwd s1 = (ind, s2)"
    by (cases "loadFile E m Fwd s1")
  have c: "findFileGE_calls s2 = findFileGE_calls s @ [EvFindFileGE succKey metadataSeekFlags]"
    using findFileGE_calls_eq [OF f] loadFile_calls [OF l] by simp
  show ?thesis
    using c calls_forward_tail [of E _ s2]
    by (auto simp: NextPrefix_seek_def Let_def f l split: option.splits)
qed

lemma calls_NextPrefix:
  "calls_are (NextPrefix E succKey s) (findFileGE_calls s) \<or>
   calls_are (NextPrefix E succKey s)
     (findFileGE_calls s @ [EvFindFileGE succKey metadataSeekFlags])"
  using calls_NextPrefix_seek [of E succKey s]
    calls_NextPrefix_seek [of E succKey "s\<lparr>smallestBoundary := None, iter := _\<rparr>"]
    calls_verify [of E _ "s\<lparr>smallestBoundary := None, iter := _\<rparr>"]
  by (auto simp: NextPrefix_def Let_def clearRangeDelSlot_def findFileGE_calls_def
      split: option.splits prod.splits)

text \<open>
  C5 (amended). \<^verbatim>\<open>SeekGE\<close> and \<^verbatim>\<open>SeekPrefixGE\<close> invoke \<^verbatim>\<open>findFileGE\<close> once, with the
  flags their caller passed, unchanged. \<^verbatim>\<open>NextPrefix\<close> invokes it at most once, and then
  with \<open>metadataSeekFlags\<close>, in which both \<open>try_seek_using_next\<close> and \<open>relative_seek\<close> are
  set. \<^verbatim>\<open>Next\<close> invokes it only when it restarts from backward exhaustion with a lower
  bound, and then with no flag set. \<^verbatim>\<open>First\<close>, \<^verbatim>\<open>Last\<close>, \<^verbatim>\<open>SeekLT\<close> and \<^verbatim>\<open>Prev\<close> do
  not invoke it. So the two flags reach \<^verbatim>\<open>findFileGE\<close> together from \<^verbatim>\<open>NextPrefix\<close>,
  and otherwise only when the caller of a seek sets both.
\<close>

theorem findFileGE_flags_by_operation:
  "calls_are (SeekGE E k flags s) (findFileGE_calls s @ [EvFindFileGE k flags]) \<and>
   calls_are (SeekPrefixGE E prefix k flags s) (findFileGE_calls s @ [EvFindFileGE k flags]) \<and>
   (calls_are (NextPrefix E k s) (findFileGE_calls s) \<or>
    calls_are (NextPrefix E k s) (findFileGE_calls s @ [EvFindFileGE k metadataSeekFlags])) \<and>
   TrySeekUsingNext metadataSeekFlags \<and> RelativeSeek metadataSeekFlags \<and>
   (calls_are (Next E s) (findFileGE_calls s) \<or>
    (exhaustedDir s = -1 \<and>
     (case lower s of
        None \<Rightarrow> False
      | Some lo \<Rightarrow>
          calls_are (Next E s) (findFileGE_calls s @ [EvFindFileGE lo SeekGEFlagsNone])))) \<and>
   calls_are (First E s) (findFileGE_calls s) \<and>
   calls_are (Last E s) (findFileGE_calls s) \<and>
   calls_are (SeekLT E k ltflags s) (findFileGE_calls s) \<and>
   calls_are (Prev E s) (findFileGE_calls s)"
proof -
  have m: "TrySeekUsingNext metadataSeekFlags \<and> RelativeSeek metadataSeekFlags"
    by (simp add: metadataSeekFlags_def EnableRelativeSeek_def EnableTrySeekUsingNext_def
        SeekGEFlagsNone_def)
  show ?thesis
    using m calls_SeekGE [of E k flags s] calls_SeekPrefixGE [of E prefix k flags s]
      calls_NextPrefix [of E k s] calls_Next [of E s] calls_First [of E s] calls_Last [of E s]
      calls_SeekLT [of E k ltflags s] calls_Prev [of E s]
    by blast
qed

text \<open>
  From the position on \<open>a\<close>, \<^verbatim>\<open>SeekGE(e)\<close> with only \<open>try_seek_using_next\<close> passes exactly
  that flag on.
\<close>

theorem findFileGE_flags_by_operation_witness:
  "calls_are (SeekGE envOn ''e'' trySeekUsingNextOnly plain_atFirst)
     (findFileGE_calls plain_atFirst @ [EvFindFileGE ''e'' trySeekUsingNextOnly]) \<and>
   calls_are (Next envOn plain_atFirst) (findFileGE_calls plain_atFirst) \<and>
   findFileGE_calls plain_atFirst = [] \<and>
   returnedKey (SeekGE envOn ''e'' trySeekUsingNextOnly plain_atFirst) = Some (Inr (Some ''e'')) \<and>
   findFileGE_calls (stateOr plain_atFirst
       (SeekGE envOn ''e'' trySeekUsingNextOnly plain_atFirst)) =
     [EvFindFileGE ''e'' \<lparr>TrySeekUsingNext = True, RelativeSeek = False\<rparr>] \<and>
   returnedKey (Next envOn plain_atFirst) = Some (Inr (Some ''c''))"
proof -
  have e: "findFileGE_calls plain_atFirst = []"
    "returnedKey (SeekGE envOn ''e'' trySeekUsingNextOnly plain_atFirst) =
       Some (Inr (Some ''e''))"
    "findFileGE_calls (stateOr plain_atFirst
       (SeekGE envOn ''e'' trySeekUsingNextOnly plain_atFirst)) =
     [EvFindFileGE ''e'' \<lparr>TrySeekUsingNext = True, RelativeSeek = False\<rparr>]"
    "returnedKey (Next envOn plain_atFirst) = Some (Inr (Some ''c''))"
    "exhaustedDir plain_atFirst \<noteq> -1"
    by code_simp+
  note T = findFileGE_flags_by_operation
    [of envOn "''e''" trySeekUsingNextOnly plain_atFirst "''e''" SeekLTFlagsNone]
  have n: "calls_are (Next envOn plain_atFirst) (findFileGE_calls plain_atFirst)"
    using T e(5) by blast
  show ?thesis
    using T e n by blast
qed

text \<open>
  The claim as the spec words it fails: from the position on \<open>a\<close>, \<^verbatim>\<open>NextPrefix(d)\<close> finds
  nothing left in the first file, invokes \<^verbatim>\<open>findFileGE\<close> with both flags set, and returns
  \<open>e\<close> from the second file.
\<close>

theorem NextPrefix_sets_both_flags_counterexample:
  "findFileGE_calls plain_atFirst = [] \<and>
   findFileGE_calls (stateOr plain_atFirst (NextPrefix envOn ''d'' plain_atFirst)) =
     [EvFindFileGE ''d'' \<lparr>TrySeekUsingNext = True, RelativeSeek = True\<rparr>] \<and>
   returnedKey (NextPrefix envOn ''d'' plain_atFirst) = Some (Inr (Some ''e''))"
  by code_simp

section \<open>The budget of try_seek_using_next\<close>










lemma cmp_files [simp]:
  "cmp (snd (files_Next s)) = cmp s"
  "cmp (snd (files_SeekGE k s)) = cmp s"
  by (simp_all add: files_Next_def files_SeekGE_def split: prod.splits)






section \<open>The early exit of SeekPrefixGE\<close>


definition config :: "('it, 'rd) levelIter \<Rightarrow> ('it, 'rd) levelIter" where
  "config s =
     s\<lparr>tableOpts_LowerBound := None, tableOpts_UpperBound := None,
       smallestBoundary := None, largestBoundary := None,
       syntheticBoundary := \<lparr>K = \<lparr>UserKey = [], ExclusiveSentinel = False\<rparr>, V = []\<rparr>,
       combinedIterState :=
         map_option (\<lambda>c. c\<lparr>triggered := False, ckey := []\<rparr>) (combinedIterState s),
       iter := None, iterFile := None,
       rangeDelIterPtr := map_option (\<lambda>c. None) (rangeDelIterPtr s),
       rangeDelIterCopy := None,
       files := (files s)\<lparr>cpos := 0\<rparr>,
       err := None, exhaustedDir := 0, trace := []\<rparr>"

lemma config_update [simp]:
  "config (s\<lparr>tableOpts_LowerBound := a\<rparr>) = config s"
  "config (s\<lparr>tableOpts_UpperBound := a\<rparr>) = config s"
  "config (s\<lparr>smallestBoundary := b\<rparr>) = config s"
  "config (s\<lparr>largestBoundary := b\<rparr>) = config s"
  "config (s\<lparr>syntheticBoundary := c\<rparr>) = config s"
  "config (s\<lparr>iter := d\<rparr>) = config s"
  "config (s\<lparr>iterFile := e\<rparr>) = config s"
  "config (s\<lparr>rangeDelIterCopy := g\<rparr>) = config s"
  "config (s\<lparr>err := h\<rparr>) = config s"
  "config (s\<lparr>exhaustedDir := i\<rparr>) = config s"
  "config (s\<lparr>trace := j\<rparr>) = config s"
  by (simp_all add: config_def)

lemma config_update_slot [simp]:
  "rangeDelIterPtr s \<noteq> None \<Longrightarrow> config (s\<lparr>rangeDelIterPtr := Some c\<rparr>) = config s"
  by (auto simp: config_def)

lemma config_update_files [simp]:
  "cfiles c = cfiles (files s) \<Longrightarrow> config (s\<lparr>files := c\<rparr>) = config s"
  by (simp add: config_def)

lemma config_eqD:
  assumes "config s' = config s"
  shows "cmp s' = cmp s" "split s' = split s" "lower s' = lower s" "upper s' = upper s"
    "cfiles (files s') = cfiles (files s)" "newIters s' = newIters s"
    "disableInvariants s' = disableInvariants s"
    "(rangeDelIterPtr s' = None) = (rangeDelIterPtr s = None)"
    "map_option initialized (combinedIterState s') = map_option initialized (combinedIterState s)"
proof -
  have a: "cmp s = cmp (config s)" "split s = split (config s)" "lower s = lower (config s)"
    "upper s = upper (config s)" "cfiles (files s) = cfiles (files (config s))"
    "newIters s = newIters (config s)" "disableInvariants s = disableInvariants (config s)"
    "(rangeDelIterPtr s = None) = (rangeDelIterPtr (config s) = None)"
    "map_option initialized (combinedIterState s) =
       map_option initialized (combinedIterState (config s))" for s :: "('a, 'b) levelIter"
    by (simp_all add: config_def option.map_comp comp_def)
  show "cmp s' = cmp s" "split s' = split s" "lower s' = lower s" "upper s' = upper s"
    "cfiles (files s') = cfiles (files s)" "newIters s' = newIters s"
    "disableInvariants s' = disableInvariants s"
    "(rangeDelIterPtr s' = None) = (rangeDelIterPtr s = None)"
    "map_option initialized (combinedIterState s') = map_option initialized (combinedIterState s)"
    using assms a(1) [of s] a(1) [of s'] a(2) [of s] a(2) [of s'] a(3) [of s] a(3) [of s']
      a(4) [of s] a(4) [of s'] a(5) [of s] a(5) [of s'] a(6) [of s] a(6) [of s']
      a(7) [of s] a(7) [of s'] a(8) [of s] a(8) [of s'] a(9) [of s] a(9) [of s']
    by simp_all
qed

lemma config_files [simp]:
  "config (snd (files_Next s)) = config s"
  "config (snd (files_Prev s)) = config s"
  "config (snd (files_First s)) = config s"
  "config (snd (files_Last s)) = config s"
  "config (snd (files_SeekGE k s)) = config s"
  "config (snd (files_SeekLT k s)) = config s"
  by (simp_all add: files_Next_def files_Prev_def files_First_def files_Last_def
      files_SeekGE_def files_SeekLT_def cursor_Next_def cursor_Prev_def cursor_First_def
      cursor_Last_def cursor_SeekGE_def cursor_SeekLT_def Let_def split: prod.splits)

lemma config_maybeTrigger [simp]:
  "config (maybeTriggerCombinedIteration f d s) = config s"
  by (auto simp: config_def maybeTriggerCombinedIteration_def split: option.splits dir.splits)

lemma config_initTableBounds [simp]: "config (snd (initTableBounds f s)) = config s"
  by (simp add: initTableBounds_def Let_def split: option.splits)

lemma config_Close [simp]: "config (snd (Close E s)) = config s"
  by (simp add: Close_def Let_def split: option.splits)

lemma config_findFileGE_body:
  "findFileGE_body k m nis nus s = Continue (m', nis', nus', s') \<Longrightarrow> config s' = config s"
  "findFileGE_body k m nis nus s = Leave s1 \<Longrightarrow> config s1 = config s"
  by (auto simp: findFileGE_body_def Let_def split: if_splits)

lemma config_findFileGE_loop:
  "config (snd (snd (snd (findFileGE_loop k m nis nus s)))) = config s"
  by (rule findFileGE_loop_rule
      [where I = "\<lambda>k m nis nus s'. config s' = config s"
         and Q = "\<lambda>k r. config (snd (snd (snd r))) = config s"])
     (auto dest: config_findFileGE_body)

lemma config_findFileGE: "config (snd (findFileGE k flags s)) = config s"
proof -
  define s0 where "s0 = s\<lparr>trace := trace s @ [EvFindFileGE k flags]\<rparr>"
  have s0: "config s0 = config s"
    by (simp add: s0_def)
  have a: "config (snd (snd (snd (findFileGE_loop k (iterFile s0) nis nus s0)))) = config s0"
    for nis nus
    by (rule config_findFileGE_loop)
  have b: "config (snd (snd (snd (findFileGE_loop k (fst (files_SeekGE k s0)) nis nus
              (snd (files_SeekGE k s0)))))) = config s0" for nis nus
    by (simp add: config_findFileGE_loop)
  show ?thesis
    using a b s0
    by (simp add: findFileGE_def Let_def s0_def [symmetric] split: prod.splits if_splits)
       (auto simp: prod_eq_iff)
qed

lemma config_loadFile_body:
  "loadFile_body f d s = Continue (m', s') \<Longrightarrow> config s' = config s"
  "loadFile_body f d s = Leave (ind, s1) \<Longrightarrow> config s1 = config s"
  by (auto simp: loadFile_body_def Let_def prod_eq_iff
      split: if_splits dir.splits prod.splits sum.splits option.splits)

lemma config_loadFile_loop: "config (snd (loadFile_loop m d s)) = config s"
  by (rule loadFile_loop_rule
      [where I = "\<lambda>d m s'. config s' = config s" and Q = "\<lambda>d r. config (snd r) = config s"])
     (auto dest: config_loadFile_body)

lemma config_loadFile: "config (snd (loadFile E m d s)) = config s"
proof -
  define s0 where "s0 = s\<lparr>smallestBoundary := None, largestBoundary := None\<rparr>"
  have a: "config s0 = config s"
    by (simp add: s0_def)
  have b: "config (case rangeDelIterPtr s0 of None \<Rightarrow> s0
            | Some c \<Rightarrow> s0\<lparr>rangeDelIterPtr := Some (rangeDelIterCopy s0)\<rparr>) = config s"
    using a by (auto split: option.splits)
  have c: "config (snd (Close E s0)) = config s"
    using a by simp
  have d: "config (snd (loadFile_loop m d (snd (Close E s0)))) = config s"
    using c by (simp add: config_loadFile_loop)
  show ?thesis
    using a b c d
    by (simp add: loadFile_def Let_def s0_def [symmetric] split: prod.splits)
       (auto simp: prod_eq_iff)
qed


definition prefixOf :: "(key \<Rightarrow> nat) \<Rightarrow> key \<Rightarrow> key" where
  "prefixOf splitf y = take (splitf y) y"

definition comparer_ok :: "(key \<Rightarrow> key \<Rightarrow> int) \<Rightarrow> (key \<Rightarrow> nat) \<Rightarrow> bool" where
  "comparer_ok cmpf splitf =
     ((\<forall>a b. (cmpf a b < 0) = (cmpf b a > 0)) \<and>
      (\<forall>a b c. cmpf a b \<le> 0 \<and> cmpf b c \<le> 0 \<longrightarrow> cmpf a c \<le> 0) \<and>
      (\<forall>a b. cmpf a b \<le> 0 \<longrightarrow> cmpf (prefixOf splitf a) (prefixOf splitf b) \<le> 0))"

definition level_ordered :: "(key \<Rightarrow> key \<Rightarrow> int) \<Rightarrow> fileMetadata list \<Rightarrow> bool" where
  "level_ordered cmpf fs =
     (\<forall>i j. i < j \<and> j < length fs \<and> HasPointKeys (fs ! i) \<and> HasPointKeys (fs ! j) \<longrightarrow>
        cmpf (UserKey (LargestPointKey (fs ! i))) (UserKey (SmallestPointKey (fs ! j))) \<le> 0)"

definition comes_after :: "fileMetadata list \<Rightarrow> fileMetadata \<Rightarrow> fileMetadata \<Rightarrow> bool" where
  "comes_after fs f g = (\<exists>i j. i < j \<and> j < length fs \<and> fs ! i = f \<and> fs ! j = g)"

definition SeekPrefixGE_miss_state ::
  "('it, 'rd) env \<Rightarrow> key \<Rightarrow> key \<Rightarrow> SeekGEFlags \<Rightarrow> ('it, 'rd) levelIter \<Rightarrow>
   ('it, 'rd) levelIter option" where
  "SeekPrefixGE_miss_state E prefix k flags s0 =
     (if invariants_Enabled E \<and>
         (case lower s0 of None \<Rightarrow> False | Some lo \<Rightarrow> cmp s0 k lo < 0)
      then None
      else
        let s = s0\<lparr>err := None, exhaustedDir := 0\<rparr> in
        case findFileGE k flags s of
          (m, s1) \<Rightarrow>
            (case loadFile E m Fwd s1 of
               (loadFileIndicator, s2) \<Rightarrow>
                 if loadFileIndicator = noFileLoaded then None
                 else
                   let flags' = (if loadFileIndicator = newFileLoaded
                                 then DisableTrySeekUsingNext flags else flags) in
                   (case iter s2 of
                      None \<Rightarrow> None
                    | Some it \<Rightarrow>
                        (case it_SeekPrefixGE E prefix k flags' it of
                           (Some kv, it') \<Rightarrow> None
                         | (None, it') \<Rightarrow> Some (s2\<lparr>iter := Some it'\<rparr>)))))"

lemma SeekPrefixGE_miss_state:
  "SeekPrefixGE_miss_state E prefix k flags s = Some s3 \<Longrightarrow>
   SeekPrefixGE E prefix k flags s = SeekPrefixGE_miss E prefix s3"
  by (auto simp: SeekPrefixGE_miss_state_def SeekPrefixGE_def Let_def
      split: if_splits prod.splits option.splits)

lemma SeekPrefixGE_miss_state_config:
  assumes "SeekPrefixGE_miss_state E prefix k flags s = Some s3"
  shows "config s3 = config s"
proof -
  define s0 where "s0 = s\<lparr>err := None, exhaustedDir := 0\<rparr>"
  obtain m s1 where f: "findFileGE k flags s0 = (m, s1)"
    by (cases "findFileGE k flags s0")
  obtain ind s2 where l: "loadFile E m Fwd s1 = (ind, s2)"
    by (cases "loadFile E m Fwd s1")
  have "config s2 = config s"
    using config_findFileGE [of k flags s0] config_loadFile [of E m Fwd s1] f l
    by (simp add: s0_def)
  with assms show ?thesis
    by (auto simp: SeekPrefixGE_miss_state_def Let_def s0_def [symmetric] f l
        split: if_splits prod.splits option.splits)
qed

lemma comparer_ok_anti:
  "comparer_ok cmpf splitf \<Longrightarrow> (cmpf a b < 0) = (cmpf b a > 0)"
  unfolding comparer_ok_def by blast

lemma comparer_ok_trans:
  "comparer_ok cmpf splitf \<Longrightarrow> cmpf a b \<le> 0 \<Longrightarrow> cmpf b c \<le> 0 \<Longrightarrow> cmpf a c \<le> 0"
  unfolding comparer_ok_def by blast

lemma comparer_ok_prefix:
  "comparer_ok cmpf splitf \<Longrightarrow> cmpf a b \<le> 0 \<Longrightarrow>
   cmpf (prefixOf splitf a) (prefixOf splitf b) \<le> 0"
  unfolding comparer_ok_def by blast

lemma comparer_strict:
  assumes "comparer_ok cmpf splitf" and "cmpf a b < 0" and "cmpf b c \<le> 0"
  shows "cmpf c a \<noteq> 0"
proof
  assume z: "cmpf c a = 0"
  then have "cmpf c a \<le> 0"
    by simp
  with assms(3) have "cmpf b a \<le> 0"
    by (rule comparer_ok_trans [OF assms(1)])
  moreover from assms(2) have "cmpf b a > 0"
    using comparer_ok_anti [OF assms(1), of a b] by simp
  ultimately show False
    by simp
qed

lemma no_later_prefix:
  assumes ok: "comparer_ok cmpf splitf"
    and ord: "level_ordered cmpf fs"
    and f: "HasPointKeys f"
    and lt: "cmpf prefix (prefixOf splitf (UserKey (LargestPointKey f))) < 0"
    and g: "comes_after fs f g" "HasPointKeys g"
    and y: "cmpf (UserKey (SmallestPointKey g)) y \<le> 0"
  shows "cmpf (prefixOf splitf y) prefix \<noteq> 0"
proof -
  from g(1) obtain i j where ij: "i < j" "j < length fs" "fs ! i = f" "fs ! j = g"
    unfolding comes_after_def by blast
  from ord ij f g(2)
  have "cmpf (UserKey (LargestPointKey f)) (UserKey (SmallestPointKey g)) \<le> 0"
    unfolding level_ordered_def by blast
  from comparer_ok_trans [OF ok this y]
  have "cmpf (UserKey (LargestPointKey f)) y \<le> 0" .
  from comparer_ok_prefix [OF ok this]
  have "cmpf (prefixOf splitf (UserKey (LargestPointKey f))) (prefixOf splitf y) \<le> 0" .
  from comparer_strict [OF ok lt this] show ?thesis .
qed

text \<open>
  C3. When the table iterator of the file chosen by \<open>SeekPrefixGE\<close> returns nil without an
  error and no synthetic boundary is emitted, the operation compares the search prefix with the
  prefix, as cut by \<open>split\<close>, of the largest point key of the current file. If the search
  prefix is strictly smaller, the result is nil and the state is the one in which the table
  iterator missed, with \<open>exhaustedDir\<close> set to \<open>+1\<close>: the cursor and the current file are
  untouched, so no later file is visited. Otherwise the result is that of
  \<open>skipEmptyFileForward\<close>. In the first case, for a comparer that is a total preorder whose
  prefixes are monotone and a level whose files are ordered, no key at or after the smallest
  point key of a later file has the requested prefix.
\<close>

theorem SeekPrefixGE_early_exit:
  assumes "SeekPrefixGE_miss_state E prefix k flags s = Some s3"
    and "map_option (it_Error E) (iter s3) = Some None"
    and "\<not> emitSyntheticBoundaries s3"
    and "iterFile s3 = Some f"
  shows "SeekPrefixGE E prefix k flags s =
           (if cmp s prefix (prefixOf (split s) (UserKey (LargestPointKey f))) < 0
            then Some (Inr (None, s3\<lparr>exhaustedDir := 1\<rparr>))
            else verify_result E (skipEmptyFileForward E s3)) \<and>
         (comparer_ok (cmp s) (split s) \<and> level_ordered (cmp s) (cfiles (files s)) \<and>
          HasPointKeys f \<and>
          cmp s prefix (prefixOf (split s) (UserKey (LargestPointKey f))) < 0 \<longrightarrow>
            (\<forall>g y. comes_after (cfiles (files s)) f g \<and> HasPointKeys g \<and>
                   cmp s (UserKey (SmallestPointKey g)) y \<le> 0 \<longrightarrow>
                   cmp s (prefixOf (split s) y) prefix \<noteq> 0))"
proof -
  from assms(2) obtain it where it: "iter s3 = Some it" "it_Error E it = None"
    by (cases "iter s3") auto
  note c = config_eqD [OF SeekPrefixGE_miss_state_config [OF assms(1)]]
  have "SeekPrefixGE E prefix k flags s = SeekPrefixGE_miss E prefix s3"
    by (rule SeekPrefixGE_miss_state [OF assms(1)])
  also have "\<dots> = (if cmp s prefix (prefixOf (split s) (UserKey (LargestPointKey f))) < 0
            then Some (Inr (None, s3\<lparr>exhaustedDir := 1\<rparr>))
            else verify_result E (skipEmptyFileForward E s3))"
    using it assms(3,4) c(1,2) by (simp add: SeekPrefixGE_miss_def Let_def prefixOf_def)
  finally show ?thesis
    using no_later_prefix [of "cmp s" "split s" "cfiles (files s)" f prefix]
    by blast
qed


definition firstByte :: "key \<Rightarrow> nat" where
  "firstByte k = min 1 (length k)"

definition prefixFiles :: "fileMetadata list" where
  "prefixFiles = [pointFile 0 ''a1'' ''c1'', pointFile 1 ''e1'' ''g1'']"

definition prefixContents :: "fileMetadata \<Rightarrow> InternalKV list" where
  "prefixContents f =
     (if FileNum f = 0 then [pointKV ''a1'', pointKV ''c1'']
      else [pointKV ''e1'', pointKV ''g1''])"

definition prefix_level :: "(sstIter, nat) levelIter" where
  "prefix_level =
     newLevelIter None None bytesCompare firstByte
       (sstOpener bytesCompare firstByte prefixContents (\<lambda>f. None))
       \<lparr>cfiles = prefixFiles, cpos = -1\<rparr>"

definition prefix_missed :: "(sstIter, nat) levelIter" where
  "prefix_missed =
     (case SeekPrefixGE_miss_state envOn ''b'' ''b1'' SeekGEFlagsNone prefix_level of
        Some s \<Rightarrow> s | None \<Rightarrow> prefix_level)"

lemma bytesCompare_anti: "(bytesCompare a b < 0) = (bytesCompare b a > 0)"
  by (induction a b rule: bytesCompare.induct) auto

lemma bytesCompare_trans:
  "bytesCompare a b \<le> 0 \<Longrightarrow> bytesCompare b c \<le> 0 \<Longrightarrow> bytesCompare a c \<le> 0"
proof (induction a arbitrary: b c)
  case Nil
  then show ?case by (cases c) simp_all
next
  case (Cons x a)
  then obtain y b' where b: "b = y # b'"
    by (cases b) auto
  with Cons.prems obtain z c' where c: "c = z # c'"
    by (cases c) auto
  from Cons.prems b c show ?case
    using Cons.IH [of b' c']
    by (auto split: if_splits)
qed

lemma bytesCompare_firstByte:
  "bytesCompare a b \<le> 0 \<Longrightarrow>
   bytesCompare (prefixOf firstByte a) (prefixOf firstByte b) \<le> 0"
  by (cases a; cases b) (auto simp: prefixOf_def firstByte_def split: if_splits)

lemma comparer_ok_bytes: "comparer_ok bytesCompare firstByte"
  unfolding comparer_ok_def
  using bytesCompare_anti bytesCompare_trans bytesCompare_firstByte by blast

lemma level_ordered_prefixFiles: "level_ordered bytesCompare prefixFiles"
  unfolding level_ordered_def
proof (intro allI impI)
  fix i j :: nat
  assume "i < j \<and> j < length prefixFiles \<and> HasPointKeys (prefixFiles ! i) \<and>
          HasPointKeys (prefixFiles ! j)"
  then have "i = 0" "j = 1"
    by (auto simp: prefixFiles_def)
  then show "bytesCompare (UserKey (LargestPointKey (prefixFiles ! i)))
               (UserKey (SmallestPointKey (prefixFiles ! j))) \<le> 0"
    by (simp add: prefixFiles_def pointFile_def)
qed


theorem SeekPrefixGE_early_exit_witness:
  "SeekPrefixGE_miss_state envOn ''b'' ''b1'' SeekGEFlagsNone prefix_level = Some prefix_missed \<and>
   map_option (it_Error envOn) (iter prefix_missed) = Some None \<and>
   \<not> emitSyntheticBoundaries prefix_missed \<and>
   iterFile prefix_missed = Some (pointFile 0 ''a1'' ''c1'') \<and>
   bytesCompare ''b'' (prefixOf firstByte ''c1'') < 0 \<and>
   SeekPrefixGE envOn ''b'' ''b1'' SeekGEFlagsNone prefix_level =
     Some (Inr (None, prefix_missed\<lparr>exhaustedDir := 1\<rparr>)) \<and>
   cpos (files prefix_missed) = 0 \<and>
   comparer_ok bytesCompare firstByte \<and>
   level_ordered bytesCompare prefixFiles \<and>
   comes_after prefixFiles (pointFile 0 ''a1'' ''c1'') (pointFile 1 ''e1'' ''g1'') \<and>
   bytesCompare (prefixOf firstByte ''e1'') ''b'' \<noteq> 0 \<and>
   bytesCompare (prefixOf firstByte ''g1'') ''b'' \<noteq> 0"
proof -
  have n: "SeekPrefixGE_miss_state envOn ''b'' ''b1'' SeekGEFlagsNone prefix_level \<noteq> None"
    by code_simp
  then have a1: "SeekPrefixGE_miss_state envOn ''b'' ''b1'' SeekGEFlagsNone prefix_level =
                   Some prefix_missed"
    by (auto simp: prefix_missed_def)
  have a2: "map_option (it_Error envOn) (iter prefix_missed) = Some None"
    by code_simp
  have a3: "\<not> emitSyntheticBoundaries prefix_missed"
    by code_simp
  have a4: "iterFile prefix_missed = Some (pointFile 0 ''a1'' ''c1'')"
    by code_simp
  have c: "cmp prefix_level = bytesCompare" "split prefix_level = firstByte"
    "cfiles (files prefix_level) = prefixFiles"
    by (simp_all add: prefix_level_def newLevelIter_def)
  have lt: "bytesCompare ''b'' (prefixOf firstByte ''c1'') < 0"
    by code_simp
  have p: "cpos (files prefix_missed) = 0"
    by code_simp
  have hp: "HasPointKeys (pointFile 0 ''a1'' ''c1'')" "HasPointKeys (pointFile 1 ''e1'' ''g1'')"
    "UserKey (LargestPointKey (pointFile 0 ''a1'' ''c1'')) = ''c1''"
    "UserKey (SmallestPointKey (pointFile 1 ''e1'' ''g1'')) = ''e1''"
    by (simp_all add: pointFile_def)
  have ca: "comes_after prefixFiles (pointFile 0 ''a1'' ''c1'') (pointFile 1 ''e1'' ''g1'')"
    unfolding comes_after_def prefixFiles_def
    by (rule exI [of _ 0], rule exI [of _ 1]) simp
  have le: "bytesCompare ''e1'' ''e1'' \<le> 0" "bytesCompare ''e1'' ''g1'' \<le> 0"
    by code_simp+
  note T = SeekPrefixGE_early_exit [OF a1 a2 a3 a4, unfolded c hp(3)]
  have r: "SeekPrefixGE envOn ''b'' ''b1'' SeekGEFlagsNone prefix_level =
     Some (Inr (None, prefix_missed\<lparr>exhaustedDir := 1\<rparr>))"
    using T lt by simp
  have A: "\<forall>g y. comes_after prefixFiles (pointFile 0 ''a1'' ''c1'') g \<and> HasPointKeys g \<and>
                 bytesCompare (UserKey (SmallestPointKey g)) y \<le> 0 \<longrightarrow>
                 bytesCompare (prefixOf firstByte y) ''b'' \<noteq> 0"
    using T lt comparer_ok_bytes level_ordered_prefixFiles hp(1) by blast
  have q: "bytesCompare (prefixOf firstByte y) ''b'' \<noteq> 0" if "bytesCompare ''e1'' y \<le> 0" for y
    using A [rule_format, of "pointFile 1 ''e1'' ''g1''" y] ca hp(2) hp(4) that by simp
  show ?thesis
    using a1 a2 a3 a4 lt r p comparer_ok_bytes level_ordered_prefixFiles ca q [OF le(1)]
      q [OF le(2)]
    by blast
qed

end
